(* ===== verification/Sunneed_Prelude.thy ===== *)
theory Sunneed_Prelude
  imports Main "HOL-Library.Word" "HOL-Library.Sublist"
begin

text \<open>
  Shared vocabulary of the development.

  \<^item> Widths of the C types, and \<open>outcome\<close>, the result of running a piece of C: it
    returns (\<open>Done\<close>), terminates the process with \<open>exit\<close> (\<open>Exited\<close>), has undefined
    behaviour such as a dereference of NULL (\<open>Fault\<close>), or waits for ever (\<open>Blocked\<close>).
  \<^item> The \<^verbatim>\<open>string.h\<close> functions the sources call, on C strings modelled as character
    lists without their terminating NUL.
  \<^item> The loop \<^verbatim>\<open>for (i = 0; i < N; i++) if (P(a[i])) { ...; break; }\<close>, which the sources
    write some twenty times, as \<open>first_index\<close>, and its variant whose test may fault, \<open>scan\<close>.
  \<^item> The locale \<open>slot_table\<close>: the contract of a fixed array whose free slots are taken
    first-fit. Five arrays of the program are instances of it.
\<close>

named_theorems capacities \<open>the lengths of the arrays and buffers of the program\<close>

section \<open>C types and outcomes\<close>

type_synonym u32 = "32 word"
type_synonym u64 = "64 word"
type_synonym byte = "8 word"
type_synonym cstr = string

datatype fault =
    NullDeref
  | OutOfBounds
  | UninitRead
  | UseAfterFree
  | IntOverflow
  | BadFormat

datatype 'a outcome = Done 'a | Exited int | Fault fault | Blocked

primrec obind :: "'a outcome \<Rightarrow> ('a \<Rightarrow> 'b outcome) \<Rightarrow> 'b outcome" where
  "obind (Done x) f = f x"
| "obind (Exited c) f = Exited c"
| "obind (Fault e) f = Fault e"
| "obind Blocked f = Blocked"

text \<open>The conversion of a 64-bit or 32-bit unsigned value to a C \<open>int\<close> (gcc: modulo \<open>2 ^ 32\<close>).\<close>

definition int_of_u64 :: "u64 \<Rightarrow> int" where
  "int_of_u64 w = sint (ucast w :: u32)"

definition int_of_u32 :: "u32 \<Rightarrow> int" where
  "int_of_u32 w = sint w"

section \<open>The C string functions\<close>

text \<open>
  \<open>strncmp\<close> compares at most \<open>n\<close> characters and stops at the terminating NUL of either
  string. The standard fixes only the sign of the result, so the model returns the sign.
\<close>

fun strncmp :: "cstr \<Rightarrow> cstr \<Rightarrow> nat \<Rightarrow> int" where
  "strncmp xs ys 0 = 0"
| "strncmp [] [] (Suc n) = 0"
| "strncmp [] (y # ys) (Suc n) = -1"
| "strncmp (x # xs) [] (Suc n) = 1"
| "strncmp (x # xs) (y # ys) (Suc n) =
     (if x = y then strncmp xs ys n
      else if (of_char x :: nat) < of_char y then -1 else 1)"

text \<open>
  What \<open>strncmp\<close> with bound \<open>n\<close> reads back from a buffer of \<open>n\<close> bytes filled by
  \<^verbatim>\<open>strncpy(buf, src, n)\<close>: the first \<open>n\<close> characters (the buffer has no NUL when the
  source is at least \<open>n\<close> long).
\<close>

definition strncpy_buf :: "cstr \<Rightarrow> nat \<Rightarrow> cstr" where
  "strncpy_buf src n = take n src"

section \<open>Array loops\<close>

fun first_index :: "('a \<Rightarrow> bool) \<Rightarrow> 'a list \<Rightarrow> nat option" where
  "first_index P [] = None"
| "first_index P (x # xs) = (if P x then Some 0 else map_option Suc (first_index P xs))"

fun scan :: "('a \<Rightarrow> bool outcome) \<Rightarrow> 'a list \<Rightarrow> nat option outcome" where
  "scan P [] = Done None"
| "scan P (x # xs) =
     obind (P x) (\<lambda>b. if b then Done (Some 0)
       else obind (scan P xs) (\<lambda>r. Done (map_option Suc r)))"

text \<open>Take the first free slot of an array and overwrite it.\<close>

definition slot_alloc :: "('e \<Rightarrow> bool) \<Rightarrow> ('e \<Rightarrow> 'e) \<Rightarrow> 'e list \<Rightarrow> (nat \<times> 'e list) option" where
  "slot_alloc free fill xs =
     (case first_index free xs of
        None \<Rightarrow> None
      | Some i \<Rightarrow> Some (i, xs[i := fill (xs ! i)]))"

definition used_count :: "('e \<Rightarrow> bool) \<Rightarrow> 'e list \<Rightarrow> nat" where
  "used_count free xs = length (filter (\<lambda>e. \<not> free e) xs)"

section \<open>Lemmas on outcomes\<close>

lemma obind_Done_iff [simp]:
  "obind m f = Done y \<longleftrightarrow> (\<exists>x. m = Done x \<and> f x = Done y)"
  by (cases m) auto

lemma obind_assoc: "obind (obind m f) g = obind m (\<lambda>x. obind (f x) g)"
  by (cases m) auto

lemma obind_cong [fundef_cong]:
  "m = m' \<Longrightarrow> (\<And>x. m' = Done x \<Longrightarrow> f x = g x) \<Longrightarrow> obind m f = obind m' g"
  by (cases m') auto

section \<open>Lemmas on strings\<close>

lemma strncmp_eq_0_iff: "strncmp xs ys n = 0 \<longleftrightarrow> take n xs = take n ys"
  by (induction xs ys n rule: strncmp.induct) auto

lemma strncmp_refl [simp]: "strncmp xs xs n = 0"
  by (simp add: strncmp_eq_0_iff)

text \<open>
  The sources bound almost every comparison by the length of one argument. That is a prefix
  test, not an equality test.
\<close>

lemma strncmp_length_left: "strncmp xs ys (length xs) = 0 \<longleftrightarrow> prefix xs ys"
proof -
  have "take (length xs) xs = take (length xs) ys \<longleftrightarrow> prefix xs ys"
    by (metis append_eq_conv_conj append_take_drop_id prefix_def take_all_iff order_refl)
  then show ?thesis by (simp add: strncmp_eq_0_iff)
qed

lemma strncmp_length_right: "strncmp xs ys (length ys) = 0 \<longleftrightarrow> prefix ys xs"
  by (metis strncmp_eq_0_iff strncmp_length_left)

lemma prefix_same_length: "length xs = length ys \<Longrightarrow> prefix xs ys \<longleftrightarrow> xs = ys"
  by (auto simp: prefix_def)

lemma strncpy_buf_short [simp]: "length s \<le> n \<Longrightarrow> strncpy_buf s n = s"
  by (simp add: strncpy_buf_def)

section \<open>Lemmas on array loops\<close>

lemma first_index_SomeD:
  "first_index P xs = Some i \<Longrightarrow> i < length xs \<and> P (xs ! i) \<and> (\<forall>j < i. \<not> P (xs ! j))"
proof (induction xs arbitrary: i)
  case Nil
  then show ?case by simp
next
  case (Cons x xs)
  show ?case
  proof (cases "P x")
    case True
    with Cons.prems show ?thesis by auto
  next
    case False
    with Cons.prems obtain k where k: "first_index P xs = Some k" "i = Suc k" by auto
    with Cons.IH [OF k(1)] False show ?thesis by (auto simp: less_Suc_eq_0_disj)
  qed
qed

lemma first_index_None_iff: "first_index P xs = None \<longleftrightarrow> (\<forall>x \<in> set xs. \<not> P x)"
  by (induction xs) auto

lemma first_index_SomeI:
  assumes "i < length xs" "P (xs ! i)" "\<And>j. j < i \<Longrightarrow> \<not> P (xs ! j)"
  shows "first_index P xs = Some i"
proof (cases "first_index P xs")
  case None
  with assms(1,2) show ?thesis by (auto simp: first_index_None_iff dest: nth_mem)
next
  case (Some k)
  from first_index_SomeD [OF this] assms show ?thesis
    using Some by (metis linorder_neqE_nat)
qed

lemma first_index_Some_iff:
  "first_index P xs = Some i \<longleftrightarrow> i < length xs \<and> P (xs ! i) \<and> (\<forall>j < i. \<not> P (xs ! j))"
  using first_index_SomeD first_index_SomeI by metis

lemma first_index_ex:
  assumes "i < length xs" "P (xs ! i)"
  obtains k where "first_index P xs = Some k" "k \<le> i"
proof (cases "first_index P xs")
  case None
  with assms show ?thesis by (auto simp: first_index_None_iff dest: nth_mem)
next
  case (Some k)
  have "k \<le> i" using first_index_SomeD [OF Some] assms by (meson linorder_not_less)
  with Some show ?thesis by (rule that)
qed

lemma first_index_cong:
  "(\<And>x. x \<in> set xs \<Longrightarrow> P x = Q x) \<Longrightarrow> first_index P xs = first_index Q xs"
  by (induction xs) auto

lemma first_index_append:
  "first_index P (xs @ ys) =
     (case first_index P xs of
        Some i \<Rightarrow> Some i | None \<Rightarrow> map_option (\<lambda>j. length xs + j) (first_index P ys))"
  by (induction xs; cases "first_index P ys") (auto split: option.splits)

lemma first_index_replicate:
  "first_index P (replicate n x) = (if 0 < n \<and> P x then Some 0 else None)"
  by (induction n) auto

lemma first_index_update_same:
  "i < length xs \<Longrightarrow> \<not> P (xs ! i) \<Longrightarrow> \<not> P e \<Longrightarrow> first_index P (xs[i := e]) = first_index P xs"
proof (induction xs arbitrary: i)
  case Nil
  then show ?case by simp
next
  case (Cons x xs)
  then show ?case by (cases i) auto
qed

lemma first_index_update_None:
  assumes "i < length xs" "first_index P xs = None" "P e"
  shows "first_index P (xs[i := e]) = Some i"
  using assms by (intro first_index_SomeI) (auto simp: first_index_None_iff nth_list_update)

lemma scan_Done:
  "(\<And>x. x \<in> set xs \<Longrightarrow> P x = Done (Q x)) \<Longrightarrow> scan P xs = Done (first_index Q xs)"
  by (induction xs) auto

lemma scan_prefix:
  assumes "\<And>j. j < i \<Longrightarrow> P (xs ! j) = Done False" and "i < length xs"
  shows "scan P xs = obind (scan P (drop i xs)) (\<lambda>r. Done (map_option (\<lambda>k. i + k) r))"
  using assms
proof (induction i arbitrary: xs)
  case 0
  have "obind m (\<lambda>r. Done (map_option (\<lambda>k. k) r)) = m" for m :: "nat option outcome"
    by (cases m) (auto simp: option.map_ident)
  then show ?case by simp
next
  case (Suc i)
  from Suc.prems(2) obtain y ys where xs: "xs = y # ys" by (cases xs) auto
  have y: "P y = Done False" using Suc.prems(1) [of 0] xs by simp
  have "scan P ys = obind (scan P (drop i ys)) (\<lambda>r. Done (map_option (\<lambda>k. i + k) r))"
    using Suc.prems xs by (intro Suc.IH) (auto dest: Suc.prems(1) [OF Suc_mono])
  then show ?case
    using xs y by (simp add: obind_assoc option.map_comp o_def)
qed

lemma scan_hit:
  assumes "i < length xs" "P (xs ! i) = Done True" "\<And>j. j < i \<Longrightarrow> P (xs ! j) = Done False"
  shows "scan P xs = Done (Some i)"
proof -
  have "drop i xs = xs ! i # drop (Suc i) xs" using assms(1) by (simp add: Cons_nth_drop_Suc)
  then show ?thesis using scan_prefix [of i P xs, OF assms(3,1)] assms(2) by simp
qed

lemma scan_fault:
  assumes "i < length xs" "P (xs ! i) = Fault e" "\<And>j. j < i \<Longrightarrow> P (xs ! j) = Done False"
  shows "scan P xs = Fault e"
proof -
  have "drop i xs = xs ! i # drop (Suc i) xs" using assms(1) by (simp add: Cons_nth_drop_Suc)
  then show ?thesis using scan_prefix [of i P xs, OF assms(3,1)] assms(2) by simp
qed

lemma slot_alloc_None_iff: "slot_alloc free fill xs = None \<longleftrightarrow> (\<forall>e \<in> set xs. \<not> free e)"
  by (cases "first_index free xs")
    (auto simp: slot_alloc_def first_index_None_iff [symmetric])

lemma slot_alloc_SomeD:
  assumes "slot_alloc free fill xs = Some (i, ys)"
  shows "i < length xs" "free (xs ! i)" "\<And>j. j < i \<Longrightarrow> \<not> free (xs ! j)"
    "ys = xs[i := fill (xs ! i)]"
  using assms first_index_SomeD [of free xs i]
  by (auto simp: slot_alloc_def split: option.splits)

lemma used_count_le: "used_count free xs \<le> length xs"
  by (simp add: used_count_def)

lemma used_count_less_iff: "used_count free xs < length xs \<longleftrightarrow> (\<exists>e \<in> set xs. free e)"
  by (auto simp: used_count_def length_filter_less) (metis filter_True less_irrefl)

lemma used_count_update:
  assumes "i < length xs"
  shows "used_count free (xs[i := e]) + (if free (xs ! i) then 0 else 1)
       = used_count free xs + (if free e then 0 else 1)"
  using assms unfolding used_count_def
proof (induction xs arbitrary: i)
  case Nil
  then show ?case by simp
next
  case (Cons x xs)
  show ?case
  proof (cases i)
    case 0
    then show ?thesis by simp
  next
    case (Suc k)
    with Cons.prems have "k < length xs" by simp
    from Cons.IH [OF this] Suc show ?thesis by (simp split: if_splits)
  qed
qed

section \<open>The contract of a first-fit slot table\<close>

text \<open>
  \<open>free\<close> tells whether a slot is unused and \<open>fill v\<close> is what the code stores for a new
  value; \<open>ok v\<close> delimits the values for which storing really takes the slot.
\<close>

locale slot_table =
  fixes free :: "'e \<Rightarrow> bool"
    and fill :: "'v \<Rightarrow> 'e \<Rightarrow> 'e"
    and ok :: "'v \<Rightarrow> bool"
  assumes fill_used: "ok v \<Longrightarrow> \<not> free (fill v e)"
begin

lemma alloc_length: "slot_alloc free (fill v) xs = Some (i, ys) \<Longrightarrow> length ys = length xs"
  by (drule slot_alloc_SomeD(4)) simp

lemma alloc_frame:
  "slot_alloc free (fill v) xs = Some (i, ys) \<Longrightarrow> j \<noteq> i \<Longrightarrow> ys ! j = xs ! j"
  by (drule slot_alloc_SomeD(4)) simp

lemma alloc_stored:
  "slot_alloc free (fill v) xs = Some (i, ys) \<Longrightarrow> ys ! i = fill v (xs ! i)"
  using slot_alloc_SomeD [of free "fill v" xs i ys] by simp

lemma alloc_used:
  "ok v \<Longrightarrow> slot_alloc free (fill v) xs = Some (i, ys) \<Longrightarrow> \<not> free (ys ! i)"
  by (simp add: alloc_stored fill_used)

lemma alloc_count:
  assumes "ok v" "slot_alloc free (fill v) xs = Some (i, ys)"
  shows "used_count free ys = Suc (used_count free xs)"
proof -
  note D = slot_alloc_SomeD [OF assms(2)]
  from used_count_update [OF D(1), of free "fill v (xs ! i)"] D(2) fill_used [OF assms(1)] D(4)
  show ?thesis by simp
qed

lemma alloc_succeeds: "used_count free xs < length xs \<Longrightarrow> \<exists>i ys. slot_alloc free (fill v) xs = Some (i, ys)"
  using slot_alloc_None_iff [of free "fill v" xs] used_count_less_iff [of free xs]
  by (cases "slot_alloc free (fill v) xs") auto

lemma alloc_fails_iff: "slot_alloc free (fill v) xs = None \<longleftrightarrow> used_count free xs = length xs"
  using slot_alloc_None_iff [of free "fill v" xs] used_count_less_iff [of free xs]
    used_count_le [of free xs] by (auto simp: le_less)

end

end
