(* ===== verification/Sunneed_Float.thy ===== *)
theory Sunneed_Float
  imports Complex_Main Sunneed_Prelude "HOL-Library.Log_Nat"
begin

text \<open>
  The binary floating point of C (IEEE 754, round to nearest even) as far as the power
  accounting of \<^verbatim>\<open>sunneed_power.c\<close> needs it: the formats of \<open>float\<close> and \<open>double\<close>, the four
  operations, and the conversions between \<open>int\<close>, \<open>float\<close> and \<open>double\<close>. Every operation
  computes the exact rational result and rounds it once; infinities, NaN and the signed
  zeros are values of their own. The lemmas give what the accounting relies on: rounding
  never takes a value below a power of two that it started above, so a nonzero power reading
  stays nonzero.
\<close>

section \<open>Formats and rounding\<close>

datatype cfloat = NaN | Inf bool | Zero bool | Num rat

record float_format =
  precision :: nat
  min_exp :: int
  max_exp :: nat

definition binary32 :: float_format where
  "binary32 = \<lparr>precision = 24, min_exp = -149, max_exp = 128\<rparr>"

definition binary64 :: float_format where
  "binary64 = \<lparr>precision = 53, min_exp = -1074, max_exp = 1024\<rparr>"

definition pow2 :: "int \<Rightarrow> rat" where
  "pow2 e = (if 0 \<le> e then 2 ^ nat e else 1 / 2 ^ nat (- e))"

text \<open>The exponent of the largest power of two that is at most \<open>q\<close>, for \<open>0 < q\<close>.\<close>

definition floor_log2 :: "rat \<Rightarrow> int" where
  "floor_log2 q =
     (if 1 \<le> q then int (floorlog 2 (nat \<lfloor>q\<rfloor>)) - 1
      else - int (floorlog 2 (nat \<lceil>1 / q\<rceil> - 1)))"

definition round_half_even :: "rat \<Rightarrow> int" where
  "round_half_even x =
     (let n = \<lfloor>x\<rfloor>; d = x - of_int n
      in if d < 1 / 2 then n
         else if 1 / 2 < d then n + 1
         else if even n then n else n + 1)"

text \<open>Rounding of a positive rational to a multiple of the unit in its last place.\<close>

definition round_pos :: "float_format \<Rightarrow> rat \<Rightarrow> rat" where
  "round_pos F a =
     (let e = max (floor_log2 a - (int (precision F) - 1)) (min_exp F)
      in of_int (round_half_even (a / pow2 e)) * pow2 e)"

definition round_to :: "float_format \<Rightarrow> rat \<Rightarrow> cfloat" where
  "round_to F q =
     (if q = 0 then Zero False
      else let s = q < 0; v = round_pos F \<bar>q\<bar>
           in if v = 0 then Zero s
              else if 2 ^ max_exp F \<le> v then Inf s
              else Num (if s then - v else v))"

section \<open>Operations\<close>

fun sign_of :: "cfloat \<Rightarrow> bool" where
  "sign_of NaN = False"
| "sign_of (Inf s) = s"
| "sign_of (Zero s) = s"
| "sign_of (Num q) = (q < 0)"

fun fneg :: "cfloat \<Rightarrow> cfloat" where
  "fneg NaN = NaN"
| "fneg (Inf s) = Inf (\<not> s)"
| "fneg (Zero s) = Zero (\<not> s)"
| "fneg (Num q) = Num (- q)"

fun fadd :: "float_format \<Rightarrow> cfloat \<Rightarrow> cfloat \<Rightarrow> cfloat" where
  "fadd F NaN y = NaN"
| "fadd F x NaN = NaN"
| "fadd F (Inf s) (Inf t) = (if s = t then Inf s else NaN)"
| "fadd F (Inf s) y = Inf s"
| "fadd F x (Inf t) = Inf t"
| "fadd F (Zero s) (Zero t) = Zero (s \<and> t)"
| "fadd F (Zero s) (Num b) = round_to F b"
| "fadd F (Num a) (Zero t) = round_to F a"
| "fadd F (Num a) (Num b) = round_to F (a + b)"

definition fsub :: "float_format \<Rightarrow> cfloat \<Rightarrow> cfloat \<Rightarrow> cfloat" where
  "fsub F x y = fadd F x (fneg y)"

fun fmul :: "float_format \<Rightarrow> cfloat \<Rightarrow> cfloat \<Rightarrow> cfloat" where
  "fmul F NaN y = NaN"
| "fmul F x NaN = NaN"
| "fmul F (Inf s) (Zero t) = NaN"
| "fmul F (Zero s) (Inf t) = NaN"
| "fmul F (Num a) (Num b) = round_to F (a * b)"
| "fmul F (Inf s) y = Inf (s \<noteq> sign_of y)"
| "fmul F x (Inf t) = Inf (sign_of x \<noteq> t)"
| "fmul F (Zero s) y = Zero (s \<noteq> sign_of y)"
| "fmul F x (Zero t) = Zero (sign_of x \<noteq> t)"

fun fdiv :: "float_format \<Rightarrow> cfloat \<Rightarrow> cfloat \<Rightarrow> cfloat" where
  "fdiv F NaN y = NaN"
| "fdiv F x NaN = NaN"
| "fdiv F (Inf s) (Inf t) = NaN"
| "fdiv F (Zero s) (Zero t) = NaN"
| "fdiv F (Num a) (Num b) = round_to F (a / b)"
| "fdiv F (Inf s) y = Inf (s \<noteq> sign_of y)"
| "fdiv F x (Inf t) = Zero (sign_of x \<noteq> t)"
| "fdiv F (Zero s) y = Zero (s \<noteq> sign_of y)"
| "fdiv F x (Zero t) = Inf (sign_of x \<noteq> t)"

text \<open>Conversion to another format, and from \<open>int\<close>.\<close>

fun fconv :: "float_format \<Rightarrow> cfloat \<Rightarrow> cfloat" where
  "fconv F (Num q) = round_to F q"
| "fconv F x = x"

definition float_of_int :: "float_format \<Rightarrow> int \<Rightarrow> cfloat" where
  "float_of_int F n = round_to F (of_int n)"

section \<open>Lemmas on rounding\<close>

lemma pow2_pos [simp]: "0 < pow2 e"
  by (simp add: pow2_def)

lemma pow2_nat [simp]: "pow2 (int n) = 2 ^ n"
  by (simp add: pow2_def)

lemma pow2_neg: "pow2 (- int n) = 1 / 2 ^ n"
  by (cases "n = 0") (auto simp: pow2_def)

lemma pow2_powr: "real_of_rat (pow2 e) = 2 powr real_of_int e"
proof (cases "0 \<le> e")
  case True
  then have "real (nat e) = real_of_int e" by simp
  with True show ?thesis
    by (simp add: pow2_def of_rat_power powr_realpow [symmetric])
next
  case False
  then obtain n where e: "e = - int n" by (metis linorder_linear neg_0_le_iff_le zero_le_imp_eq_int
        minus_equation_iff)
  show ?thesis
    unfolding e by (simp add: pow2_neg of_rat_divide of_rat_power powr_minus powr_realpow inverse_eq_divide)
qed

lemma pow2_mono: "d \<le> e \<Longrightarrow> pow2 d \<le> pow2 e"
  using pow2_powr [of d] pow2_powr [of e]
  by (metis of_int_le_iff of_rat_less_eq one_le_numeral powr_mono)

lemma pow2_add: "pow2 (d + e) = pow2 d * pow2 e"
proof -
  have "real_of_rat (pow2 (d + e)) = real_of_rat (pow2 d * pow2 e)"
    by (simp add: pow2_powr of_rat_mult powr_add)
  then show ?thesis by (simp only: of_rat_eq_iff)
qed

lemma floorlog2_bounds:
  assumes "0 < n"
  shows "2 ^ (floorlog 2 n - 1) \<le> n" "n < 2 ^ floorlog 2 n" "0 < floorlog 2 n"
  using Log_Nat.floorlog_bounds [of n 2] assms by (auto intro: gr0I)

lemma pow2_floor_log2_le:
  assumes "0 < q"
  shows "pow2 (floor_log2 q) \<le> q"
proof (cases "1 \<le> q")
  case True
  let ?n = "nat \<lfloor>q\<rfloor>"
  have n: "0 < ?n" using True by simp
  have "pow2 (floor_log2 q) = pow2 (int (floorlog 2 ?n - 1))"
    using True floorlog2_bounds(3) [OF n] by (simp add: floor_log2_def of_nat_diff)
  also have "\<dots> = of_nat (2 ^ (floorlog 2 ?n - 1))" by simp
  also have "\<dots> \<le> of_nat ?n" using floorlog2_bounds(1) [OF n] by (simp only: of_nat_le_iff)
  also have "\<dots> \<le> q" using True by simp
  finally show ?thesis .
next
  case False
  let ?c = "nat \<lceil>1 / q\<rceil>"
  have q1: "1 < 1 / q" using False assms by simp
  then have c: "0 < ?c - 1" by (simp add: less_ceiling_iff)
  have "?c \<le> 2 ^ floorlog 2 (?c - 1)" using floorlog2_bounds(2) [OF c] by linarith
  then have "(of_nat ?c :: rat) \<le> 2 ^ floorlog 2 (?c - 1)"
    by (metis of_nat_le_iff of_nat_numeral of_nat_power)
  moreover have "1 / q \<le> of_nat ?c" by (meson le_of_int_ceiling of_nat_ceiling)
  ultimately have "1 / q \<le> 2 ^ floorlog 2 (?c - 1)" by (rule order_trans [rotated])
  then have "1 / 2 ^ floorlog 2 (?c - 1) \<le> q"
    using assms by (simp add: field_simps)
  then show ?thesis using False by (simp add: floor_log2_def pow2_neg)
qed

lemma round_half_even_ge: "of_int n \<le> x \<Longrightarrow> n \<le> round_half_even x"
  by (auto simp: round_half_even_def Let_def le_floor_iff)
    (meson le_floor_iff less_imp_le order.trans zle_add1_eq_le zless_add1_eq)+

text \<open>Rounding keeps a value above every power of two that the format has.\<close>

lemma round_pos_ge:
  assumes j: "pow2 j \<le> a" and min: "min_exp F \<le> j" and prec: "1 \<le> precision F"
  shows "pow2 j \<le> round_pos F a"
proof -
  define e where "e = max (floor_log2 a - (int (precision F) - 1)) (min_exp F)"
  have a: "0 < a" using j by (rule less_le_trans [OF pow2_pos])
  have "pow2 (floor_log2 a) \<le> a" using a by (rule pow2_floor_log2_le)
  moreover have "pow2 (min_exp F) \<le> a" using pow2_mono [OF min] j by (rule order_trans)
  moreover have "floor_log2 a - (int (precision F) - 1) \<le> floor_log2 a" using prec by simp
  ultimately have e: "pow2 e \<le> a"
    unfolding e_def max_def using pow2_mono by (metis (full_types) order_trans)
  have "pow2 j \<le> of_int (round_half_even (a / pow2 e)) * pow2 e"
  proof (cases "e \<le> j")
    case True
    define m :: int where "m = 2 ^ nat (j - e)"
    have m: "pow2 j = of_int m * pow2 e"
      using pow2_add [of "j - e" e] True by (simp add: m_def pow2_def)
    have "of_int m \<le> a / pow2 e" using j m by (simp add: le_divide_eq)
    then have "m \<le> round_half_even (a / pow2 e)" by (rule round_half_even_ge)
    then show ?thesis unfolding m by simp
  next
    case False
    have "of_int 1 \<le> a / pow2 e" using e by (simp add: le_divide_eq)
    then have "1 \<le> round_half_even (a / pow2 e)" by (rule round_half_even_ge)
    then have "pow2 e \<le> of_int (round_half_even (a / pow2 e)) * pow2 e" by simp
    moreover have "pow2 j \<le> pow2 e" using False by (intro pow2_mono) simp
    ultimately show ?thesis by (rule order_trans [rotated])
  qed
  then show ?thesis by (simp add: round_pos_def Let_def e_def)
qed

definition at_least :: "rat \<Rightarrow> cfloat \<Rightarrow> bool" where
  "at_least b x \<longleftrightarrow> (case x of Inf s \<Rightarrow> True | Num q \<Rightarrow> b \<le> \<bar>q\<bar> | _ \<Rightarrow> False)"

lemma round_to_at_least:
  assumes "pow2 j \<le> \<bar>q\<bar>" "min_exp F \<le> j" "1 \<le> precision F"
  shows "at_least (pow2 j) (round_to F q)"
proof -
  have q: "q \<noteq> 0" using assms(1) less_le_trans [OF pow2_pos assms(1)] by auto
  have v: "pow2 j \<le> round_pos F \<bar>q\<bar>" using assms by (rule round_pos_ge)
  moreover have "0 < round_pos F \<bar>q\<bar>" using pow2_pos v by (rule less_le_trans)
  ultimately show ?thesis using q by (auto simp: round_to_def Let_def at_least_def)
qed

lemma fconv_not_NaN [simp]: "fconv F x = NaN \<longleftrightarrow> x = NaN"
  by (cases x) (auto simp: round_to_def Let_def)

lemma round_to_not_NaN [simp]: "round_to F q \<noteq> NaN"
  by (simp add: round_to_def Let_def)

lemma float_of_int_not_NaN [simp]: "float_of_int F n \<noteq> NaN"
  by (simp add: float_of_int_def)

lemma fadd_NaN [simp]: "fadd F NaN y = NaN" "fadd F x NaN = NaN"
  by (cases x; simp)+

lemma fsub_NaN [simp]: "fsub F NaN y = NaN" "fsub F x NaN = NaN"
  by (simp_all add: fsub_def)

lemma fmul_NaN [simp]: "fmul F NaN y = NaN" "fmul F x NaN = NaN"
  by (cases x; simp)+

lemma fdiv_NaN [simp]: "fdiv F NaN y = NaN" "fdiv F x NaN = NaN"
  by (cases x; simp)+

section \<open>Exact values\<close>

text \<open>A multiple of a unit that the format has at that magnitude is not changed by rounding.\<close>

lemma round_pos_exact:
  assumes "floor_log2 a - (int (precision F) - 1) \<le> d" "min_exp F \<le> d" "a = of_int m * pow2 d"
  shows "round_pos F a = a"
proof -
  define e where "e = max (floor_log2 a - (int (precision F) - 1)) (min_exp F)"
  have "e \<le> d" using assms(1,2) by (simp add: e_def)
  then have "pow2 d = of_int (2 ^ nat (d - e)) * pow2 e"
    using pow2_add [of "d - e" e] by (simp add: pow2_def)
  moreover have e0: "pow2 e \<noteq> 0" using pow2_pos [of e] by (metis less_irrefl)
  ultimately have "a / pow2 e = of_int (m * 2 ^ nat (d - e))"
    using assms(3) by (simp add: field_simps)
  moreover have "round_half_even (of_int k) = k" for k by (simp add: round_half_even_def)
  ultimately have "of_int (round_half_even (a / pow2 e)) * pow2 e = a"
    using e0 by (metis nonzero_eq_divide_eq)
  then show ?thesis by (simp add: round_pos_def Let_def e_def)
qed

lemma floor_log2_values:
  "floor_log2 1 = 0" "floor_log2 2 = 1" "floor_log2 3 = 1" "floor_log2 4 = 2"
  "floor_log2 (1 / 4) = -2"
  by (simp_all add: floor_log2_def compute_floorlog)

lemma round_pos_quarters:
  assumes "4 \<le> precision F" "min_exp F \<le> -2"
  shows "round_pos F 1 = 1" "round_pos F 2 = 2" "round_pos F 3 = 3" "round_pos F 4 = 4"
    "round_pos F (1 / 4) = 1 / 4"
proof -
  have unit: "floor_log2 a \<le> 2 \<Longrightarrow> a = of_int m \<Longrightarrow> round_pos F a = a" for a m
    using assms by (intro round_pos_exact [of a F 0 m]) (auto simp: pow2_def)
  show "round_pos F 1 = 1" by (rule unit [of _ 1]) (simp_all add: floor_log2_values)
  show "round_pos F 2 = 2" by (rule unit [of _ 2]) (simp_all add: floor_log2_values)
  show "round_pos F 3 = 3" by (rule unit [of _ 3]) (simp_all add: floor_log2_values)
  show "round_pos F 4 = 4" by (rule unit [of _ 4]) (simp_all add: floor_log2_values)
  show "round_pos F (1 / 4) = 1 / 4"
    using assms by (intro round_pos_exact [of _ F "-2" 1]) (simp_all add: floor_log2_values pow2_def)
qed

lemma exact32 [simp]:
  "round_to binary32 1 = Num 1" "round_to binary32 2 = Num 2" "round_to binary32 3 = Num 3"
  "round_to binary32 4 = Num 4" "round_to binary32 (1 / 4) = Num (1 / 4)"
  using round_pos_quarters [of binary32] by (simp_all add: round_to_def binary32_def)

lemma exact64 [simp]:
  "round_to binary64 1 = Num 1" "round_to binary64 4 = Num 4"
  "round_to binary64 (1 / 4) = Num (1 / 4)"
  using round_pos_quarters [of binary64] by (simp_all add: round_to_def binary64_def)

end
