(* ===== verification/Sunneed_Proc.thy ===== *)
theory Sunneed_Proc
  imports Sunneed_Float
begin

text \<open>
  The tenant registry: \<^verbatim>\<open>src/src/sunneed_proc.c\<close>, \<^verbatim>\<open>sunneed_proc.h\<close> and the pipe table of
  \<^verbatim>\<open>sunneed.h\<close> (the CPU usage monitor of the same file is in \<open>Sunneed_Monitor\<close>). A pointer to a tenant is an index of the array
  \<open>tenants\<close>, NULL is \<open>None\<close>; an \<^verbatim>\<open>nng_pipe\<close> is the 32-bit identifier it holds.

  \<open>registry_ok\<close> is the invariant that ties the two arrays together: the used entries of
  \<open>tenant_pipes\<close> are in bijection with the active tenants.
\<close>

section \<open>State\<close>

definition MAX_TENANTS :: nat where
  "MAX_TENANTS = 4"

definition SUNNEED_MAX_IPC_CLIENTS :: nat where
  "SUNNEED_MAX_IPC_CLIENTS = 512"

declare MAX_TENANTS_def [capacities] SUNNEED_MAX_IPC_CLIENTS_def [capacities]

record sunneed_tenant =
  tenant_id :: u32
  pid :: int
  power_proportion :: cfloat
  is_active :: bool

record tenant_pipe =
  tp_tenant :: "nat option"
  tp_pipe :: u32

record tenant_cpu_usage =
  usage_user :: u64
  usage_sys :: u64

record cpu_usage =
  cpu_user :: u64
  cpu_nice :: u64
  cpu_sys :: u64
  cpu_idle :: u64
  cpu_tenants :: "tenant_cpu_usage list"

record proc_state =
  tenants :: "sunneed_tenant list"
  tenant_pipes :: "tenant_pipe list"
  cpu_usage :: cpu_usage

text \<open>The state before \<open>main\<close> runs: C sets objects with static storage to zero.\<close>

definition zero_tenant :: sunneed_tenant where
  "zero_tenant = \<lparr>tenant_id = 0, pid = 0, power_proportion = Zero False, is_active = False\<rparr>"

definition proc_static :: proc_state where
  "proc_static =
     \<lparr>tenants = replicate MAX_TENANTS zero_tenant,
      tenant_pipes = replicate SUNNEED_MAX_IPC_CLIENTS \<lparr>tp_tenant = None, tp_pipe = 0\<rparr>,
      cpu_usage = \<lparr>cpu_user = 0, cpu_nice = 0, cpu_sys = 0, cpu_idle = 0,
        cpu_tenants = replicate MAX_TENANTS \<lparr>usage_user = 0, usage_sys = 0\<rparr>\<rparr>\<rparr>"

section \<open>Tenants\<close>

definition sunneed_init_tenants :: "proc_state \<Rightarrow> int \<times> proc_state" where
  "sunneed_init_tenants st =
     (0, st\<lparr>tenants := map (\<lambda>i. \<lparr>tenant_id = of_nat i, pid = 0, power_proportion = Zero False,
                               is_active = False\<rparr>) [0..<MAX_TENANTS]\<rparr>)"

definition activate :: "int \<Rightarrow> sunneed_tenant \<Rightarrow> sunneed_tenant" where
  "activate p t = t\<lparr>pid := p, is_active := True\<rparr>"

definition sunneed_tenant_register :: "int \<Rightarrow> proc_state \<Rightarrow> nat option \<times> proc_state" where
  "sunneed_tenant_register p st =
     (case slot_alloc (\<lambda>t. \<not> is_active t) (activate p) (tenants st) of
        None \<Rightarrow> (None, st)
      | Some (i, ts) \<Rightarrow> (Some i, st\<lparr>tenants := ts\<rparr>))"

definition sunneed_tenant_unregister :: "nat option \<Rightarrow> proc_state \<Rightarrow> int \<times> proc_state" where
  "sunneed_tenant_unregister tenant st =
     (case tenant of
        None \<Rightarrow> (1, st)
      | Some t \<Rightarrow>
          if \<not> is_active (tenants st ! t) then (1, st)
          else (0, st\<lparr>tenants := (tenants st)[t := (tenants st ! t)\<lparr>is_active := False\<rparr>]\<rparr>))"

definition empty_pipe :: "u32 \<Rightarrow> tenant_pipe" where
  "empty_pipe nng_init = \<lparr>tp_tenant = None, tp_pipe = nng_init\<rparr>"

text \<open>
  The loop of \<open>unregister_lost_tenant\<close> reads \<^verbatim>\<open>tenant_pipes[i].tenant->id\<close> without a test
  for NULL, so it faults at the first unused entry it meets.
\<close>

definition lost_match :: "proc_state \<Rightarrow> nat \<Rightarrow> tenant_pipe \<Rightarrow> bool outcome" where
  "lost_match st t tp =
     (case tp_tenant tp of
        None \<Rightarrow> Fault NullDeref
      | Some t' \<Rightarrow> Done (tenant_id (tenants st ! t') = tenant_id (tenants st ! t)))"

definition unregister_lost_tenant :: "u32 \<Rightarrow> nat \<Rightarrow> proc_state \<Rightarrow> proc_state outcome" where
  "unregister_lost_tenant nng_init t st =
     obind (scan (lost_match st t) (tenant_pipes st))
       (\<lambda>r. case r of
          None \<Rightarrow> Done st
        | Some i \<Rightarrow>
            Done (snd (sunneed_tenant_unregister (Some t)
              (st\<lparr>tenant_pipes := (tenant_pipes st)[i := empty_pipe nng_init]\<rparr>))))"

text \<open>The counter is an \<^verbatim>\<open>unsigned int\<close>.\<close>

fun count_active :: "sunneed_tenant list \<Rightarrow> u32 \<Rightarrow> u32" where
  "count_active [] n = n"
| "count_active (t # ts) n = count_active ts (if is_active t then n + 1 else n)"

definition sunneed_get_num_tenants :: "proc_state \<Rightarrow> u32" where
  "sunneed_get_num_tenants st = count_active (tenants st) 0"

section \<open>The invariant of the registry\<close>

definition registry_ok :: "proc_state \<Rightarrow> bool" where
  "registry_ok st \<longleftrightarrow>
     length (tenants st) = MAX_TENANTS \<and>
     length (tenant_pipes st) = SUNNEED_MAX_IPC_CLIENTS \<and>
     (\<forall>i < SUNNEED_MAX_IPC_CLIENTS. \<forall>t. tp_tenant (tenant_pipes st ! i) = Some t \<longrightarrow>
        t < MAX_TENANTS \<and> is_active (tenants st ! t)) \<and>
     (\<forall>i < SUNNEED_MAX_IPC_CLIENTS. \<forall>j < SUNNEED_MAX_IPC_CLIENTS. \<forall>t.
        tp_tenant (tenant_pipes st ! i) = Some t \<longrightarrow> tp_tenant (tenant_pipes st ! j) = Some t \<longrightarrow> i = j) \<and>
     (\<forall>t < MAX_TENANTS. is_active (tenants st ! t) \<longrightarrow>
        (\<exists>i < SUNNEED_MAX_IPC_CLIENTS. tp_tenant (tenant_pipes st ! i) = Some t))"

text \<open>What \<open>sunneed_init_tenants\<close> establishes and every later operation keeps: identifier = index.\<close>

definition ids_ok :: "proc_state \<Rightarrow> bool" where
  "ids_ok st \<longleftrightarrow> (\<forall>t < MAX_TENANTS. tenant_id (tenants st ! t) = of_nat t)"

definition active_set :: "proc_state \<Rightarrow> nat set" where
  "active_set st = {t. t < length (tenants st) \<and> is_active (tenants st ! t)}"

section \<open>The contract of a tenant registry\<close>

text \<open>
  What the request handlers rely on, stated over the set of active tenants: registering
  takes an unused tenant while there is one, unregistering releases exactly the one named.
\<close>

locale tenant_registry =
  fixes register :: "int \<Rightarrow> 's \<Rightarrow> nat option \<times> 's"
    and unregister :: "nat option \<Rightarrow> 's \<Rightarrow> int \<times> 's"
    and active :: "'s \<Rightarrow> nat set"
    and inv :: "'s \<Rightarrow> bool"
    and cap :: nat
  assumes active_bound: "inv s \<Longrightarrow> active s \<subseteq> {..<cap}"
    and register_Some: "inv s \<Longrightarrow> register p s = (Some t, s') \<Longrightarrow>
      inv s' \<and> t \<notin> active s \<and> active s' = insert t (active s)"
    and register_None: "inv s \<Longrightarrow> register p s = (None, s') \<Longrightarrow> s' = s \<and> active s = {..<cap}"
    and unregister_active: "inv s \<Longrightarrow> t \<in> active s \<Longrightarrow> unregister (Some t) s = (r, s') \<Longrightarrow>
      r = 0 \<and> inv s' \<and> active s' = active s - {t}"
    and unregister_inactive: "inv s \<Longrightarrow> t \<notin> active s \<Longrightarrow> t < cap \<Longrightarrow> unregister (Some t) s = (1, s)"
    and unregister_null: "unregister None s = (1, s)"
begin

lemma finite_active: "inv s \<Longrightarrow> finite (active s)"
  using active_bound finite_subset by blast

lemma card_active_le: "inv s \<Longrightarrow> card (active s) \<le> cap"
  using active_bound [of s] by (metis card_lessThan card_mono finite_lessThan)

lemma register_succeeds_iff:
  assumes "inv s"
  shows "fst (register p s) \<noteq> None \<longleftrightarrow> card (active s) < cap"
proof (cases "register p s")
  case (Pair r s')
  show ?thesis
  proof (cases r)
    case None
    with register_None [OF assms] Pair have "active s = {..<cap}" by blast
    with None Pair show ?thesis by simp
  next
    case (Some t)
    with register_Some [OF assms] Pair have t: "inv s'" "t \<notin> active s" "active s' = insert t (active s)"
      by blast+
    then have "card (active s') = Suc (card (active s))"
      using finite_active [OF assms] by simp
    with card_active_le [OF t(1)] Some Pair show ?thesis by simp
  qed
qed

lemma register_unregister:
  assumes "inv s" "register p s = (Some t, s')" "unregister (Some t) s' = (r, s'')"
  shows "r = 0 \<and> active s'' = active s"
  using register_Some [OF assms(1,2)] unregister_active [OF _ _ assms(3)] by blast

text \<open>Releasing any tenant makes room for the next registration.\<close>

lemma room_after_unregister:
  assumes "inv s" "t \<in> active s" "unregister (Some t) s = (r, s')"
  shows "fst (register p s') \<noteq> None"
proof -
  note u = unregister_active [OF assms]
  then have "card (active s') < card (active s)"
    using finite_active [OF assms(1)] assms(2) by (metis card_Diff1_less)
  with card_active_le [OF assms(1)] have "card (active s') < cap" by simp
  with u register_succeeds_iff [of s' p] show ?thesis by blast
qed

end

section \<open>Registering and unregistering\<close>

interpretation tenant_slots: slot_table "\<lambda>t. \<not> is_active t" activate "\<lambda>p. True"
  by unfold_locales (simp add: activate_def)

definition tenants_ok :: "proc_state \<Rightarrow> bool" where
  "tenants_ok st \<longleftrightarrow> length (tenants st) = MAX_TENANTS"

lemma register_SomeD:
  assumes "sunneed_tenant_register p st = (Some t, st')"
  shows "t < length (tenants st)" "\<not> is_active (tenants st ! t)"
    "st' = st\<lparr>tenants := (tenants st)[t := activate p (tenants st ! t)]\<rparr>"
  using assms slot_alloc_SomeD [of "\<lambda>t. \<not> is_active t" "activate p" "tenants st"]
  by (auto simp: sunneed_tenant_register_def split: option.splits prod.splits)

lemma register_NoneD:
  assumes "sunneed_tenant_register p st = (None, st')"
  shows "st' = st" "\<forall>t \<in> set (tenants st). is_active t"
  using assms slot_alloc_None_iff [of "\<lambda>t. \<not> is_active t" "activate p" "tenants st"]
  by (auto simp: sunneed_tenant_register_def split: option.splits prod.splits)

lemma unregister_active_eq:
  "is_active (tenants st ! t) \<Longrightarrow> sunneed_tenant_unregister (Some t) st =
     (0, st\<lparr>tenants := (tenants st)[t := (tenants st ! t)\<lparr>is_active := False\<rparr>]\<rparr>)"
  by (simp add: sunneed_tenant_unregister_def)

interpretation proc_registry: tenant_registry sunneed_tenant_register sunneed_tenant_unregister
  active_set tenants_ok MAX_TENANTS
proof unfold_locales
  fix st p t st'
  assume "tenants_ok st" "sunneed_tenant_register p st = (Some t, st')"
  with register_SomeD [of p st t st']
  show "tenants_ok st' \<and> t \<notin> active_set st \<and> active_set st' = insert t (active_set st)"
    by (auto simp: tenants_ok_def active_set_def activate_def nth_list_update)
next
  fix st p st'
  assume "tenants_ok st" "sunneed_tenant_register p st = (None, st')"
  with register_NoneD [of p st st'] show "st' = st \<and> active_set st = {..<MAX_TENANTS}"
    by (auto simp: tenants_ok_def active_set_def)
next
  fix st t r st'
  assume "tenants_ok st" "t \<in> active_set st" "sunneed_tenant_unregister (Some t) st = (r, st')"
  then show "r = 0 \<and> tenants_ok st' \<and> active_set st' = active_set st - {t}"
    by (auto simp: tenants_ok_def active_set_def unregister_active_eq nth_list_update split: if_splits)
qed (auto simp: tenants_ok_def active_set_def sunneed_tenant_unregister_def)

lemma count_active_eq: "count_active ts n = n + of_nat (length (filter is_active ts))"
  by (induction ts arbitrary: n) auto

lemma card_active_set: "card (active_set st) = length (filter is_active (tenants st))"
  by (simp add: active_set_def length_filter_conv_card)

lemma num_tenants_card:
  assumes "tenants_ok st"
  shows "unat (sunneed_get_num_tenants st) = card (active_set st)"
proof -
  have "card (active_set st) \<le> 4"
    using proc_registry.card_active_le [OF assms] by (simp add: capacities)
  then show ?thesis
    by (simp add: sunneed_get_num_tenants_def count_active_eq card_active_set unat_of_nat)
qed

section \<open>The registry invariant\<close>

lemma registry_okD:
  assumes "registry_ok st"
  shows "length (tenants st) = MAX_TENANTS" "length (tenant_pipes st) = SUNNEED_MAX_IPC_CLIENTS"
    "\<And>i t. i < SUNNEED_MAX_IPC_CLIENTS \<Longrightarrow> tp_tenant (tenant_pipes st ! i) = Some t \<Longrightarrow>
       t < MAX_TENANTS \<and> is_active (tenants st ! t)"
    "\<And>i j t. i < SUNNEED_MAX_IPC_CLIENTS \<Longrightarrow> j < SUNNEED_MAX_IPC_CLIENTS \<Longrightarrow>
       tp_tenant (tenant_pipes st ! i) = Some t \<Longrightarrow> tp_tenant (tenant_pipes st ! j) = Some t \<Longrightarrow> i = j"
    "\<And>t. t < MAX_TENANTS \<Longrightarrow> is_active (tenants st ! t) \<Longrightarrow>
       \<exists>i < SUNNEED_MAX_IPC_CLIENTS. tp_tenant (tenant_pipes st ! i) = Some t"
  using assms unfolding registry_ok_def by blast+

lemma registry_ok_tenants_ok: "registry_ok st \<Longrightarrow> tenants_ok st"
  by (simp add: registry_ok_def tenants_ok_def)

text \<open>The table has room: a used entry per active tenant, and at most four of those.\<close>

lemma used_pipes_eq_active:
  assumes "registry_ok st"
  shows "used_count (\<lambda>tp. tp_tenant tp = None) (tenant_pipes st) = card (active_set st)"
proof -
  note D = registry_okD [OF assms]
  let ?U = "{i. i < length (tenant_pipes st) \<and> tp_tenant (tenant_pipes st ! i) \<noteq> None}"
  have "bij_betw (\<lambda>i. the (tp_tenant (tenant_pipes st ! i))) ?U (active_set st)"
    unfolding bij_betw_def
  proof (intro conjI set_eqI iffI)
    show "inj_on (\<lambda>i. the (tp_tenant (tenant_pipes st ! i))) ?U"
      using D(2,4) by (auto simp: inj_on_def)
  next
    fix t assume "t \<in> (\<lambda>i. the (tp_tenant (tenant_pipes st ! i))) ` ?U"
    then show "t \<in> active_set st" using D(1,2,3) by (auto simp: active_set_def)
  next
    fix t assume "t \<in> active_set st"
    then obtain i where "i < SUNNEED_MAX_IPC_CLIENTS" "tp_tenant (tenant_pipes st ! i) = Some t"
      using D(1,5) by (auto simp: active_set_def)
    then show "t \<in> (\<lambda>i. the (tp_tenant (tenant_pipes st ! i))) ` ?U"
      using D(2) by (force intro!: image_eqI [of _ _ i])
  qed
  then show ?thesis
    by (simp add: used_count_def length_filter_conv_card bij_betw_same_card)
qed

lemma pipe_table_has_room:
  assumes "registry_ok st"
  shows "used_count (\<lambda>tp. tp_tenant tp = None) (tenant_pipes st) < length (tenant_pipes st)"
  using used_pipes_eq_active [OF assms] proc_registry.card_active_le [of st]
    registry_ok_tenants_ok [OF assms] registry_okD(2) [OF assms]
  by (simp add: capacities)

text \<open>Releasing a tenant together with its entry keeps the invariant.\<close>

definition release :: "u32 \<Rightarrow> nat \<Rightarrow> nat \<Rightarrow> proc_state \<Rightarrow> proc_state" where
  "release nng_init i t st =
     st\<lparr>tenant_pipes := (tenant_pipes st)[i := empty_pipe nng_init],
        tenants := (tenants st)[t := (tenants st ! t)\<lparr>is_active := False\<rparr>]\<rparr>"

lemma release_registry_ok:
  assumes ok: "registry_ok st" and i: "i < SUNNEED_MAX_IPC_CLIENTS"
    and t: "tp_tenant (tenant_pipes st ! i) = Some t"
  shows "registry_ok (release nng_init i t st)"
proof -
  note D = registry_okD [OF ok]
  have slot: "tp_tenant (tenant_pipes (release nng_init i t st) ! j) =
      (if j = i then None else tp_tenant (tenant_pipes st ! j))"
    if "j < SUNNEED_MAX_IPC_CLIENTS" for j
    using that i D(2) by (simp add: release_def empty_pipe_def nth_list_update)
  have act: "is_active (tenants (release nng_init i t st) ! u) \<longleftrightarrow> u \<noteq> t \<and> is_active (tenants st ! u)"
    if "u < MAX_TENANTS" for u
    using that D(1) by (cases "u = t") (simp_all add: release_def)
  have other: "j \<noteq> i" if "j < SUNNEED_MAX_IPC_CLIENTS" "tp_tenant (tenant_pipes st ! j) = Some u" "u \<noteq> t"
    for j u using that t by auto
  show ?thesis
    unfolding registry_ok_def
  proof (intro conjI allI impI)
    show "length (tenants (release nng_init i t st)) = MAX_TENANTS"
      "length (tenant_pipes (release nng_init i t st)) = SUNNEED_MAX_IPC_CLIENTS"
      using D(1,2) by (simp_all add: release_def)
  next
    fix j u
    assume j: "j < SUNNEED_MAX_IPC_CLIENTS"
      and u: "tp_tenant (tenant_pipes (release nng_init i t st) ! j) = Some u"
    then have ji: "j \<noteq> i" "tp_tenant (tenant_pipes st ! j) = Some u"
      by (auto simp: slot split: if_splits)
    then have "u \<noteq> t" using D(4) [OF j i _ t] by auto
    with D(3) [OF j ji(2)] show "u < MAX_TENANTS" "is_active (tenants (release nng_init i t st) ! u)"
      by (auto simp: act)
  next
    fix j k u
    assume "j < SUNNEED_MAX_IPC_CLIENTS" "k < SUNNEED_MAX_IPC_CLIENTS"
      "tp_tenant (tenant_pipes (release nng_init i t st) ! j) = Some u"
      "tp_tenant (tenant_pipes (release nng_init i t st) ! k) = Some u"
    then show "j = k" using D(4) by (auto simp: slot split: if_splits)
  next
    fix u assume u: "u < MAX_TENANTS" "is_active (tenants (release nng_init i t st) ! u)"
    then have "u \<noteq> t" "is_active (tenants st ! u)" by (auto simp: act)
    with D(5) [OF u(1)] other
    show "\<exists>j < SUNNEED_MAX_IPC_CLIENTS. tp_tenant (tenant_pipes (release nng_init i t st) ! j) = Some u"
      by (metis slot)
  qed
qed

lemma active_set_release:
  "t < length (tenants st) \<Longrightarrow> active_set (release nng_init i t st) = active_set st - {t}"
  by (auto simp: active_set_def release_def nth_list_update)

lemma unregister_release:
  assumes "is_active (tenants st ! t)"
  shows "sunneed_tenant_unregister (Some t) (st\<lparr>tenant_pipes := (tenant_pipes st)[i := empty_pipe nng_init]\<rparr>)
       = (0, release nng_init i t st)"
  using assms by (simp add: sunneed_tenant_unregister_def release_def)

text \<open>Activating a tenant together with a fresh entry keeps it as well.\<close>

definition attach :: "nat \<Rightarrow> nat \<Rightarrow> u32 \<Rightarrow> int \<Rightarrow> proc_state \<Rightarrow> proc_state" where
  "attach i t pipe p st =
     st\<lparr>tenants := (tenants st)[t := activate p (tenants st ! t)],
        tenant_pipes := (tenant_pipes st)[i := \<lparr>tp_tenant = Some t, tp_pipe = pipe\<rparr>]\<rparr>"

lemma attach_slot:
  "i < length (tenant_pipes st) \<Longrightarrow> tp_tenant (tenant_pipes (attach i t pipe p st) ! j) =
     (if j = i then Some t else tp_tenant (tenant_pipes st ! j))"
  by (simp add: attach_def nth_list_update)

lemma attach_active:
  "t < length (tenants st) \<Longrightarrow>
   is_active (tenants (attach i t pipe p st) ! u) \<longleftrightarrow> u = t \<or> is_active (tenants st ! u)"
  by (auto simp: attach_def activate_def nth_list_update)

lemma attach_registry_ok:
  assumes ok: "registry_ok st" and i: "i < SUNNEED_MAX_IPC_CLIENTS" "tp_tenant (tenant_pipes st ! i) = None"
    and t: "t < MAX_TENANTS" "\<not> is_active (tenants st ! t)"
  shows "registry_ok (attach i t pipe p st)"
proof -
  note D = registry_okD [OF ok]
  have slot: "tp_tenant (tenant_pipes (attach i t pipe p st) ! j) =
     (if j = i then Some t else tp_tenant (tenant_pipes st ! j))" for j
    using i(1) D(2) by (simp add: attach_slot)
  have act: "is_active (tenants (attach i t pipe p st) ! u) \<longleftrightarrow> u = t \<or> is_active (tenants st ! u)" for u
    using t(1) D(1) by (simp add: attach_active)
  have unused: "tp_tenant (tenant_pipes st ! j) \<noteq> Some t" if "j < SUNNEED_MAX_IPC_CLIENTS" for j
    using D(3) [OF that] t(2) by blast
  show ?thesis
    unfolding registry_ok_def
  proof (intro conjI allI impI)
    show "length (tenants (attach i t pipe p st)) = MAX_TENANTS"
      "length (tenant_pipes (attach i t pipe p st)) = SUNNEED_MAX_IPC_CLIENTS"
      using D(1,2) by (simp_all add: attach_def)
  next
    fix j u
    assume "j < SUNNEED_MAX_IPC_CLIENTS" "tp_tenant (tenant_pipes (attach i t pipe p st) ! j) = Some u"
    then show "u < MAX_TENANTS" "is_active (tenants (attach i t pipe p st) ! u)"
      using D(3) t(1) by (auto simp: slot act split: if_splits)
  next
    fix j k u
    assume "j < SUNNEED_MAX_IPC_CLIENTS" "k < SUNNEED_MAX_IPC_CLIENTS"
      "tp_tenant (tenant_pipes (attach i t pipe p st) ! j) = Some u"
      "tp_tenant (tenant_pipes (attach i t pipe p st) ! k) = Some u"
    then show "j = k" using D(4) unused by (auto simp: slot split: if_splits)
  next
    fix u assume "u < MAX_TENANTS" "is_active (tenants (attach i t pipe p st) ! u)"
    then show "\<exists>j < SUNNEED_MAX_IPC_CLIENTS. tp_tenant (tenant_pipes (attach i t pipe p st) ! j) = Some u"
      using D(5) i by (metis act slot option.distinct(1))
  qed
qed

lemma active_set_attach:
  "t < length (tenants st) \<Longrightarrow> active_set (attach i t pipe p st) = insert t (active_set st)"
  by (auto simp: active_set_def attach_active) (auto simp: attach_def)

lemma attach_ids_ok: "ids_ok st \<Longrightarrow> ids_ok (attach i t pipe p st)"
  by (cases "t < length (tenants st)")
    (auto simp: ids_ok_def attach_def activate_def nth_list_update list_update_beyond)

lemma proc_static_ok: "registry_ok proc_static"
  by (simp add: registry_ok_def proc_static_def zero_tenant_def)

lemma init_tenants_ids: "ids_ok (snd (sunneed_init_tenants st))"
  by (simp add: ids_ok_def sunneed_init_tenants_def)

lemma inactive_registry_free:
  assumes "registry_ok st" "active_set st = {}" "i < SUNNEED_MAX_IPC_CLIENTS"
  shows "tp_tenant (tenant_pipes st ! i) = None"
  using registry_okD(1) [OF assms(1)] registry_okD(3) [OF assms(1,3)] assms(2)
  by (cases "tp_tenant (tenant_pipes st ! i)") (auto simp: active_set_def)

lemma init_registry_ok:
  assumes "registry_ok st" "active_set st = {}"
  shows "registry_ok (snd (sunneed_init_tenants st))"
  using registry_okD(2) [OF assms(1)] inactive_registry_free [OF assms]
  by (simp add: registry_ok_def sunneed_init_tenants_def)

text \<open>Two clients, on the pipes 7 and 8, for the examples below.\<close>

definition fresh_proc :: proc_state where
  "fresh_proc = snd (sunneed_init_tenants proc_static)"

definition two_tenants :: "proc_state \<Rightarrow> proc_state" where
  "two_tenants st = attach 1 1 8 101 (attach 0 0 7 100 st)"

lemma fresh_proc_ok: "registry_ok fresh_proc" "ids_ok fresh_proc"
  unfolding fresh_proc_def
  by (rule init_registry_ok [OF proc_static_ok], simp add: active_set_def proc_static_def zero_tenant_def)
    (rule init_tenants_ids)

lemma two_tenants_shape:
  assumes "registry_ok st" "active_set st = {}"
  shows "registry_ok (two_tenants st)" "tp_tenant (tenant_pipes (two_tenants st) ! 0) = Some 0"
    "tp_tenant (tenant_pipes (two_tenants st) ! 1) = Some 1"
    "is_active (tenants (two_tenants st) ! 0)" "is_active (tenants (two_tenants st) ! 1)"
proof -
  note D = registry_okD [OF assms(1)]
  note free = inactive_registry_free [OF assms]
  have one: "registry_ok (attach 0 0 7 100 st)"
    using assms D(1) free by (intro attach_registry_ok)
      (auto simp: active_set_def capacities)
  show "registry_ok (two_tenants st)"
    unfolding two_tenants_def using assms(2) D(1,2) free
    by (intro attach_registry_ok [OF one])
      (auto simp: attach_slot attach_active active_set_def capacities)
  show "tp_tenant (tenant_pipes (two_tenants st) ! 0) = Some 0"
    "tp_tenant (tenant_pipes (two_tenants st) ! 1) = Some 1"
    using D(2) registry_okD(2) [OF one]
    by (simp_all add: two_tenants_def attach_slot capacities)
  show "is_active (tenants (two_tenants st) ! 0)" "is_active (tenants (two_tenants st) ! 1)"
    using D(1) registry_okD(1) [OF one]
    by (simp_all add: two_tenants_def attach_active capacities)
qed

lemma fresh_proc_inactive: "active_set fresh_proc = {}" "active_set proc_static = {}"
  by (simp_all add: active_set_def fresh_proc_def sunneed_init_tenants_def proc_static_def zero_tenant_def)

section \<open>Properties of the registry\<close>

text \<open>
  Registering a tenant, on every branch. With fewer than four active tenants the first
  inactive one is activated for the process and the count grows by one; otherwise NULL is
  returned and nothing changes.
\<close>

lemma tenant_register_behaviour:
  assumes "tenants_ok st"
  shows "case sunneed_tenant_register p st of
      (None, st') \<Rightarrow> st' = st \<and> sunneed_get_num_tenants st = 4
    | (Some t, st') \<Rightarrow> t < 4 \<and> \<not> is_active (tenants st ! t) \<and> (\<forall>j < t. is_active (tenants st ! j)) \<and>
        st' = st\<lparr>tenants := (tenants st)[t := (tenants st ! t)\<lparr>pid := p, is_active := True\<rparr>]\<rparr> \<and>
        unat (sunneed_get_num_tenants st') = Suc (unat (sunneed_get_num_tenants st))"
proof (cases "sunneed_tenant_register p st")
  case (Pair r st')
  show ?thesis
  proof (cases r)
    case None
    then have "st' = st" "active_set st = {..<4}"
      using proc_registry.register_None [OF assms] Pair by (auto simp: capacities)
    moreover from this have "unat (sunneed_get_num_tenants st) = 4"
      using num_tenants_card [OF assms] by simp
    then have "sunneed_get_num_tenants st = 4"
      by (simp add: word_unat_eq_iff)
    ultimately show ?thesis using None Pair by simp
  next
    case (Some t)
    with Pair have reg: "sunneed_tenant_register p st = (Some t, st')" by simp
    have "slot_alloc (\<lambda>t. \<not> is_active t) (activate p) (tenants st) = Some (t, tenants st')"
      using reg by (auto simp: sunneed_tenant_register_def split: option.splits)
    note first = slot_alloc_SomeD(3) [OF this]
    note L = proc_registry.register_Some [OF assms reg]
    then have "card (active_set st') = Suc (card (active_set st))"
      using proc_registry.finite_active [OF assms] by simp
    then show ?thesis
      using Some Pair first L register_SomeD [OF reg] num_tenants_card assms
      by (auto simp: tenants_ok_def capacities activate_def)
  qed
qed

lemma tenant_register_behaviour_example:
  "case sunneed_tenant_register 42 proc_static of
      (None, st') \<Rightarrow> st' = proc_static \<and> sunneed_get_num_tenants proc_static = 4
    | (Some t, st') \<Rightarrow> t < 4 \<and> \<not> is_active (tenants proc_static ! t) \<and>
        (\<forall>j < t. is_active (tenants proc_static ! j)) \<and>
        st' = proc_static\<lparr>tenants := (tenants proc_static)[t := (tenants proc_static ! t)\<lparr>pid := 42, is_active := True\<rparr>]\<rparr> \<and>
        unat (sunneed_get_num_tenants st') = Suc (unat (sunneed_get_num_tenants proc_static))"
  by (rule tenant_register_behaviour) (simp add: tenants_ok_def proc_static_def)

text \<open>
  C29. Unregistering undoes registering: the tenant handed out by a registration is accepted
  once by \<open>sunneed_tenant_unregister\<close>, which leaves the same tenants active as before; a
  second unregistration of it is refused and changes nothing.
\<close>

theorem tenant_register_unregister:
  assumes "tenants_ok st" "sunneed_tenant_register p st = (Some t, st1)"
    and "sunneed_tenant_unregister (Some t) st1 = (r, st2)"
  shows "r = 0 \<and> active_set st2 = active_set st \<and> sunneed_tenant_unregister (Some t) st2 = (1, st2)"
proof -
  note reg = proc_registry.register_Some [OF assms(1,2)]
  note unreg = proc_registry.unregister_active [OF _ _ assms(3)]
  have "t < MAX_TENANTS" using register_SomeD(1) [OF assms(2)] assms(1) by (simp add: tenants_ok_def)
  then show ?thesis
    using proc_registry.register_unregister [OF assms] reg unreg proc_registry.unregister_inactive
    by blast
qed

theorem tenant_register_unregister_witness:
  "\<exists>t st1 st2. sunneed_tenant_register 42 proc_static = (Some t, st1) \<and>
     sunneed_tenant_unregister (Some t) st1 = (0, st2) \<and> active_set st2 = active_set proc_static \<and>
     sunneed_tenant_unregister (Some t) st2 = (1, st2)"
proof -
  have ok: "tenants_ok proc_static" by (simp add: tenants_ok_def proc_static_def)
  have "fst (sunneed_tenant_register 42 proc_static) \<noteq> None"
    using proc_registry.register_succeeds_iff [OF ok] fresh_proc_inactive(2) by (simp add: capacities)
  then obtain t st1 where reg: "sunneed_tenant_register 42 proc_static = (Some t, st1)"
    by (cases "sunneed_tenant_register 42 proc_static") auto
  obtain r st2 where unreg: "sunneed_tenant_unregister (Some t) st1 = (r, st2)" by fastforce
  from tenant_register_unregister [OF ok reg unreg] reg unreg show ?thesis by auto
qed

section \<open>Lost tenants\<close>

lemma ids_ok_inj:
  assumes "ids_ok st" "t < MAX_TENANTS" "u < MAX_TENANTS"
  shows "tenant_id (tenants st ! t) = tenant_id (tenants st ! u) \<longleftrightarrow> t = u"
proof -
  have "t = u" if "(of_nat t :: u32) = of_nat u"
    using arg_cong [OF that, of unat] assms(2,3) by (simp add: unat_of_nat capacities)
  then show ?thesis using assms by (auto simp: ids_ok_def)
qed

lemma lost_match_used:
  "tp_tenant tp = Some u \<Longrightarrow>
   lost_match st t tp = Done (tenant_id (tenants st ! u) = tenant_id (tenants st ! t))"
  by (simp add: lost_match_def)

lemma lost_match_other:
  assumes "registry_ok st" "ids_ok st" "tp_tenant (tenant_pipes st ! i) = Some t"
    "i < SUNNEED_MAX_IPC_CLIENTS" "j < SUNNEED_MAX_IPC_CLIENTS" "j \<noteq> i"
    "tp_tenant (tenant_pipes st ! j) = Some u"
  shows "lost_match st t (tenant_pipes st ! j) = Done False"
proof -
  note D = registry_okD [OF assms(1)]
  have "u \<noteq> t" using D(4) [OF assms(5,4)] assms(3,6,7) by blast
  then show ?thesis
    using ids_ok_inj [OF assms(2)] D(3) [OF assms(4,3)] D(3) [OF assms(5,7)]
    by (simp add: lost_match_used [OF assms(7)])
qed

lemma unregister_lost_hit:
  assumes "i < length (tenant_pipes st)" "lost_match st t (tenant_pipes st ! i) = Done True"
    "\<And>j. j < i \<Longrightarrow> lost_match st t (tenant_pipes st ! j) = Done False"
    "is_active (tenants st ! t)"
  shows "unregister_lost_tenant nng_init t st = Done (release nng_init i t st)"
  using scan_hit [of i "tenant_pipes st" "lost_match st t", OF assms(1,2,3)]
  by (simp add: unregister_lost_tenant_def unregister_release [OF assms(4)])

text \<open>
  C30. Removing a tenant whose process is gone. In a consistent registry whose tenants carry
  their index as identifier, and whose table has no unused entry before the entry of the lost
  tenant, \<open>unregister_lost_tenant\<close> clears exactly that entry and deactivates exactly that
  tenant, and the registry stays consistent.
\<close>

theorem lost_tenant_released:
  assumes "registry_ok st" "ids_ok st" "i < SUNNEED_MAX_IPC_CLIENTS"
    and "tp_tenant (tenant_pipes st ! i) = Some t"
    and "\<forall>j < i. tp_tenant (tenant_pipes st ! j) \<noteq> None"
  shows "\<exists>st'. unregister_lost_tenant nng_init t st = Done st' \<and> registry_ok st' \<and>
    active_set st' = active_set st - {t} \<and>
    tenant_pipes st' = (tenant_pipes st)[i := \<lparr>tp_tenant = None, tp_pipe = nng_init\<rparr>]"
proof -
  note D = registry_okD [OF assms(1)]
  have t: "t < MAX_TENANTS" "is_active (tenants st ! t)" using D(3) [OF assms(3,4)] by auto
  have "lost_match st t (tenant_pipes st ! j) = Done False" if "j < i" for j
    using that assms(5) lost_match_other [OF assms(1,2,4,3)] assms(3)
    by (metis (no_types) less_irrefl less_trans option.exhaust)
  then have "unregister_lost_tenant nng_init t st = Done (release nng_init i t st)"
    using assms(3) D(2) t(2) by (intro unregister_lost_hit) (auto simp: lost_match_used [OF assms(4)])
  moreover have "registry_ok (release nng_init i t st)" using assms(1,3,4) by (rule release_registry_ok)
  moreover have "active_set (release nng_init i t st) = active_set st - {t}"
    using t(1) D(1) by (intro active_set_release) simp
  ultimately show ?thesis by (auto simp: release_def empty_pipe_def)
qed

theorem lost_tenant_released_witness:
  "\<exists>st'. unregister_lost_tenant 0 1 (two_tenants fresh_proc) = Done st' \<and> registry_ok st' \<and>
     active_set st' = active_set (two_tenants fresh_proc) - {1} \<and>
     tenant_pipes st' = (tenant_pipes (two_tenants fresh_proc))[1 := \<lparr>tp_tenant = None, tp_pipe = 0\<rparr>]"
proof -
  note S = two_tenants_shape [OF fresh_proc_ok(1) fresh_proc_inactive(1)]
  have "ids_ok (two_tenants fresh_proc)"
    unfolding two_tenants_def by (intro attach_ids_ok fresh_proc_ok)
  then show ?thesis
    using S by (intro lost_tenant_released) (auto simp: capacities)
qed

text \<open>
  If the tenants carry their index as identifier, an unused entry before that of the lost tenant
  is fatal: \<open>unregister_lost_tenant\<close> dereferences NULL.
\<close>

lemma lost_tenant_after_hole_faults:
  assumes "registry_ok st" "ids_ok st" "i < SUNNEED_MAX_IPC_CLIENTS"
    and "tp_tenant (tenant_pipes st ! i) = Some t"
    and "h < i" "tp_tenant (tenant_pipes st ! h) = None"
  shows "unregister_lost_tenant nng_init t st = Fault NullDeref"
proof -
  note D = registry_okD [OF assms(1)]
  obtain k where k: "first_index (\<lambda>tp. tp_tenant tp = None) (tenant_pipes st) = Some k" "k \<le> h"
    using first_index_ex [of h "tenant_pipes st" "\<lambda>tp. tp_tenant tp = None"] assms(3,5,6) D(2)
    by (metis less_trans)
  note K = first_index_SomeD [OF k(1)]
  have "lost_match st t (tenant_pipes st ! j) = Done False" if less: "j < k" for j
  proof -
    have "j \<noteq> i" "j < SUNNEED_MAX_IPC_CLIENTS" using less k(2) assms(3,5) by auto
    moreover obtain u where "tp_tenant (tenant_pipes st ! j) = Some u" using K less by blast
    ultimately show ?thesis using lost_match_other [OF assms(1,2,4,3)] by blast
  qed
  moreover have "lost_match st t (tenant_pipes st ! k) = Fault NullDeref"
    using K by (simp add: lost_match_def)
  ultimately have "scan (lost_match st t) (tenant_pipes st) = Fault NullDeref"
    using K by (intro scan_fault [of k]) auto
  then show ?thesis by (simp add: unregister_lost_tenant_def)
qed

lemma lost_tenant_after_hole_faults_example:
  "unregister_lost_tenant 0 1 (release 0 0 0 (two_tenants fresh_proc)) = Fault NullDeref"
proof -
  let ?st = "two_tenants fresh_proc"
  note S = two_tenants_shape [OF fresh_proc_ok(1) fresh_proc_inactive(1)]
  note D = registry_okD [OF S(1)]
  have ids: "ids_ok ?st" unfolding two_tenants_def by (intro attach_ids_ok fresh_proc_ok)
  have "registry_ok (release 0 0 0 ?st)"
    using S(1) _ S(2) by (rule release_registry_ok) (simp add: capacities)
  moreover have "ids_ok (release 0 0 0 ?st)"
    using ids D(1) by (auto simp: ids_ok_def release_def nth_list_update capacities)
  moreover have "tp_tenant (tenant_pipes (release 0 0 0 ?st) ! 1) = Some 1"
    "tp_tenant (tenant_pipes (release 0 0 0 ?st) ! 0) = None"
    using S(3) D(2) by (simp_all add: release_def empty_pipe_def capacities)
  ultimately show ?thesis
    by (intro lost_tenant_after_hole_faults [where i = 1 and h = 0])
      (simp_all add: capacities)
qed

text \<open>
  When all tenants carry the identifier 0 (as they do in the daemon, which never calls
  \<open>sunneed_init_tenants\<close>), the search for the entry of a lost tenant stops at entry 0. If that
  is unused, NULL is dereferenced; otherwise the entry is cleared, whosever it is.
\<close>

lemma lost_tenant_zero_ids:
  assumes "registry_ok st" "\<forall>u < MAX_TENANTS. tenant_id (tenants st ! u) = 0"
    and "t < MAX_TENANTS" "is_active (tenants st ! t)"
  shows "case tp_tenant (tenant_pipes st ! 0) of
      None \<Rightarrow> unregister_lost_tenant nng_init t st = Fault NullDeref
    | Some a \<Rightarrow> \<exists>st'. unregister_lost_tenant nng_init t st = Done st' \<and>
        tenant_pipes st' = (tenant_pipes st)[0 := \<lparr>tp_tenant = None, tp_pipe = nng_init\<rparr>] \<and>
        active_set st' = active_set st - {t} \<and> (registry_ok st' \<longleftrightarrow> a = t)"
proof (cases "tp_tenant (tenant_pipes st ! 0)")
  note D = registry_okD [OF assms(1)]
  have N: "0 < SUNNEED_MAX_IPC_CLIENTS" by (simp add: capacities)
  {
    case None
    then have "lost_match st t (tenant_pipes st ! 0) = Fault NullDeref" by (simp add: lost_match_def)
    then have "scan (lost_match st t) (tenant_pipes st) = Fault NullDeref"
      using N D(2) by (intro scan_fault [of 0]) auto
    with None show ?thesis by (simp add: unregister_lost_tenant_def)
  next
    case (Some a)
    let ?st' = "release nng_init 0 t st"
    have a: "a < MAX_TENANTS" "is_active (tenants st ! a)" using D(3) [OF N Some] by auto
    have run: "unregister_lost_tenant nng_init t st = Done ?st'"
      using N D(2) assms(2-4) a by (intro unregister_lost_hit) (auto simp: lost_match_used [OF Some])
    have act: "active_set ?st' = active_set st - {t}" using assms(3) D(1) by (intro active_set_release) simp
    have "\<not> registry_ok ?st'" if "a \<noteq> t"
    proof
      assume ok: "registry_ok ?st'"
      have "a \<in> active_set ?st'" using act a D(1) that by (auto simp: active_set_def)
      then have "a < MAX_TENANTS" "is_active (tenants ?st' ! a)" using registry_okD(1) [OF ok] by (auto simp: active_set_def)
      then obtain i where i: "i < SUNNEED_MAX_IPC_CLIENTS" "tp_tenant (tenant_pipes ?st' ! i) = Some a"
        using ok by (auto simp: registry_ok_def)
      show False
      proof (cases "i = 0")
        case True
        with i N D(2) show False by (simp add: release_def empty_pipe_def)
      next
        case False
        with i(2) have "tp_tenant (tenant_pipes st ! i) = Some a" by (simp add: release_def)
        with D(4) [OF i(1) N _ Some] False show False by simp
      qed
    qed
    moreover have "registry_ok ?st'" if "a = t"
      using assms(1) N Some unfolding that by (rule release_registry_ok)
    ultimately have "registry_ok ?st' \<longleftrightarrow> a = t" by blast
    with run act Some show ?thesis by (auto simp: release_def empty_pipe_def)
  }
qed

end
