(* ===== verification/Sunneed_Monitor.thy ===== *)
theory Sunneed_Monitor
  imports Sunneed_Proc Sunneed_Scanf
begin

text \<open>
  The process monitor of \<^verbatim>\<open>src/src/sunneed_proc.c\<close>: a pass over the tenants that reads the
  CPU times of each live one from procfs and removes those whose process is gone.
\<close>

section \<open>CPU usage\<close>

text \<open>
  The file system the monitor sees during one pass: \<open>fs_access p\<close> is whether
  \<^verbatim>\<open>access(p, F_OK)\<close> succeeds, \<open>fs_read p\<close> is the text of the file that \<^verbatim>\<open>fopen(p, "r")\<close>
  opens, \<open>None\<close> when it returns NULL. A pass makes each call at most once per path.
\<close>

record procfs =
  fs_access :: "cstr \<Rightarrow> bool"
  fs_read :: "cstr \<Rightarrow> cstr option"

definition proc_stat_format :: "directive list" where
  "proc_stat_format =
     [SkipS, Space, ReadLLU, Space, ReadLLU, Space, ReadLLU, Space, ReadLLU]"

definition pid_stat_format :: "directive list" where
  "pid_stat_format =
     [SkipD, Space, SkipS, Space, SkipC, Space, SkipD, Space, SkipD, Space, SkipD, Space,
      SkipD, Space, SkipD, Space, SkipU, Space, SkipU, Space, SkipU, Space, SkipU, Space,
      SkipU, Space, ReadLLU, Space, ReadLLU, Space, SkipD, Space, SkipD, Space, SkipD, Space,
      SkipD, Space, SkipD, Space, SkipD, Space, SkipU, Space, SkipU]"

definition pid_stat_path :: "int \<Rightarrow> cstr" where
  "pid_stat_path p = ''/proc/'' @ dec_int p @ ''/stat''"

text \<open>\<open>fscanf\<close> assigns its targets in order and leaves those after a failure alone.\<close>

definition nth_or :: "'a list \<Rightarrow> nat \<Rightarrow> 'a \<Rightarrow> 'a" where
  "nth_or vs i old = (if i < length vs then vs ! i else old)"

definition store_system_usage :: "u64 list \<Rightarrow> cpu_usage \<Rightarrow> cpu_usage" where
  "store_system_usage vs c =
     c\<lparr>cpu_user := nth_or vs 0 (cpu_user c), cpu_nice := nth_or vs 1 (cpu_nice c),
       cpu_sys := nth_or vs 2 (cpu_sys c), cpu_idle := nth_or vs 3 (cpu_idle c)\<rparr>"

definition store_tenant_usage :: "u64 list \<Rightarrow> nat \<Rightarrow> cpu_usage \<Rightarrow> cpu_usage" where
  "store_tenant_usage vs k c =
     (let u = cpu_tenants c ! k
      in c\<lparr>cpu_tenants := (cpu_tenants c)[k :=
             u\<lparr>usage_user := nth_or vs 0 (usage_user u), usage_sys := nth_or vs 1 (usage_sys u)\<rparr>]\<rparr>)"

definition update_tenant_usage :: "procfs \<Rightarrow> u32 \<Rightarrow> nat \<Rightarrow> proc_state \<Rightarrow> proc_state outcome" where
  "update_tenant_usage fs nng_init i st =
     (let t = tenants st ! i; path = pid_stat_path (pid t); k = unat (tenant_id t)
      in if \<not> is_active t then Done st
         else if \<not> fs_access fs path then unregister_lost_tenant nng_init i st
         else case fs_read fs path of
                None \<Rightarrow> Fault NullDeref
              | Some text \<Rightarrow>
                  if k < MAX_TENANTS
                  then Done (st\<lparr>cpu_usage :=
                         store_tenant_usage (fscanf pid_stat_format text) k (cpu_usage st)\<rparr>)
                  else Fault OutOfBounds)"

fun update_tenants_usage :: "procfs \<Rightarrow> u32 \<Rightarrow> nat list \<Rightarrow> proc_state \<Rightarrow> proc_state outcome" where
  "update_tenants_usage fs nng_init [] st = Done st"
| "update_tenants_usage fs nng_init (i # is) st =
     obind (update_tenant_usage fs nng_init i st) (update_tenants_usage fs nng_init is)"

definition sunneed_update_tenant_cpu_usage :: "procfs \<Rightarrow> u32 \<Rightarrow> proc_state \<Rightarrow> (int \<times> proc_state) outcome" where
  "sunneed_update_tenant_cpu_usage fs nng_init st =
     (case fs_read fs ''/proc/stat'' of
        None \<Rightarrow> Fault NullDeref
      | Some text \<Rightarrow>
          obind (update_tenants_usage fs nng_init [0..<MAX_TENANTS]
                  (st\<lparr>cpu_usage := store_system_usage (fscanf proc_stat_format text) (cpu_usage st)\<rparr>))
            (\<lambda>st'. Done (0, st')))"

definition sunneed_get_tenant_cpu_usage :: "u32 \<Rightarrow> proc_state \<Rightarrow> int outcome" where
  "sunneed_get_tenant_cpu_usage tid st =
     (if MAX_TENANTS \<le> unat tid then Fault OutOfBounds
      else if \<not> is_active (tenants st ! unat tid) then Done (-1)
      else Done 0)"

text \<open>
  The monitor thread: one pass per element of the list, which holds what the file system
  answers in each; the thread stops at a pass that does not return 0.
\<close>

fun sunneed_proc_monitor :: "procfs list \<Rightarrow> u32 \<Rightarrow> proc_state \<Rightarrow> proc_state outcome" where
  "sunneed_proc_monitor [] nng_init st = Done st"
| "sunneed_proc_monitor (fs # fss) nng_init st =
     obind (sunneed_update_tenant_cpu_usage fs nng_init st)
       (\<lambda>(ret, st'). if ret \<noteq> 0 then Done st' else sunneed_proc_monitor fss nng_init st')"

section \<open>The line of a process\<close>

text \<open>
  What the kernel writes: process id, command name in parentheses, state letter, then numbers
  separated by single blanks (the format of \<^verbatim>\<open>/proc/PID/stat\<close>); \<open>nums\<close> are the fields 4 to 13.
\<close>

fun print_nums :: "int list \<Rightarrow> cstr \<Rightarrow> cstr" where
  "print_nums [] rest = rest"
| "print_nums (n # ns) rest = sp @ dec_int n @ print_nums ns rest"

definition pid_stat_line :: "int \<Rightarrow> cstr \<Rightarrow> char \<Rightarrow> int list \<Rightarrow> nat \<Rightarrow> nat \<Rightarrow> cstr \<Rightarrow> cstr" where
  "pid_stat_line p comm state nums utime stime rest =
     dec_int p @ sp @ (''('' @ comm @ '')'') @ sp @ [state] @
       print_nums nums (sp @ dec utime @ sp @ dec stime @ sp @ rest)"

lemma fscanf_Space_sp: "fscanf (Space # ds) (CHR '' '' # s) = fscanf (Space # ds) s"
  by (simp add: is_space_def)

lemma dropWhile_space_dec_int: "dropWhile is_space (dec_int i @ r) = dec_int i @ r"
  by (auto simp: dec_int_def dropWhile_space_dec is_space_def)

lemma fscanf_Space_skip_int:
  assumes "ends_number r" "d = SkipD \<or> d = SkipU"
  shows "fscanf (Space # d # ds) (sp @ dec_int i @ r) = fscanf ds r"
  using fscanf_skip_int [OF assms(1) _ assms(2), of "[]"] dropWhile_space_dec_int
  by (simp add: is_space_def)

lemma fscanf_Space_read:
  assumes "ends_number r" "n < 2 ^ 64"
  shows "fscanf (Space # ReadLLU # ds) (sp @ dec n @ r) = of_nat n # fscanf ds r"
  using fscanf_read [OF assms(1) _ assms(2), of "[]"] dropWhile_space_dec
  by (simp add: is_space_def)

lemma ends_number_nums: "ends_number (print_nums ns (sp @ rest))"
  by (cases ns) simp_all

lemma fscanf_nums:
  assumes "\<forall>d \<in> set ds. d = SkipD \<or> d = SkipU" "length ds = length ns"
  shows "fscanf (concat (map (\<lambda>d. [Space, d]) ds) @ fmt) (print_nums ns (sp @ rest)) = fscanf fmt (sp @ rest)"
  using assms
proof (induction ds arbitrary: ns)
  case Nil
  then show ?case by simp
next
  case (Cons d ds)
  then obtain m ms where ns: "ns = m # ms" by (cases ns) auto
  have "fscanf (Space # d # concat (map (\<lambda>d. [Space, d]) ds) @ fmt) (sp @ dec_int m @ print_nums ms (sp @ rest))
      = fscanf (concat (map (\<lambda>d. [Space, d]) ds) @ fmt) (print_nums ms (sp @ rest))"
    using Cons.prems(1) ends_number_nums by (intro fscanf_Space_skip_int) auto
  also have "\<dots> = fscanf fmt (sp @ rest)" using Cons ns by (intro Cons.IH) auto
  finally show ?case using ns by simp
qed

lemma pid_stat_format_split:
  "pid_stat_format = SkipD # Space # SkipS # Space # SkipC #
     concat (map (\<lambda>d. [Space, d]) [SkipD, SkipD, SkipD, SkipD, SkipD, SkipU, SkipU, SkipU, SkipU, SkipU]) @
     Space # ReadLLU # Space # ReadLLU #
     concat (map (\<lambda>d. [Space, d]) [SkipD, SkipD, SkipD, SkipD, SkipD, SkipD, SkipU, SkipU])"
  by (simp add: pid_stat_format_def)

lemma fscanf_comm:
  assumes "\<forall>c \<in> set comm. \<not> is_space c" "\<not> is_space state"
  shows "fscanf (Space # SkipS # Space # SkipC # ds)
      (sp @ (''('' @ comm @ '')'') @ sp @ [state] @ r) = fscanf ds r"
proof -
  let ?w = "''('' @ comm @ '')''"
  have w: "\<forall>c \<in> set ?w. \<not> is_space c" using assms(1) by (auto simp: is_space_def)
  have "fscanf (Space # SkipS # Space # SkipC # ds) (sp @ ?w @ CHR '' '' # [state] @ r)
      = fscanf (SkipS # Space # SkipC # ds) (?w @ CHR '' '' # [state] @ r)"
    by (simp add: is_space_def)
  also have "\<dots> = fscanf (Space # SkipC # ds) (CHR '' '' # [state] @ r)"
    using fscanf_skip_word [OF _ w, of "[]"] by simp
  also have "\<dots> = fscanf ds r" using assms(2) by (simp add: is_space_def)
  finally show ?thesis by simp
qed

text \<open>
  C33. Reading the CPU times of a process. On the line the kernel writes for a process whose
  command name has no white space, the format string picks exactly the fields 14 and 15, the
  user and system time.
\<close>

theorem pid_stat_times:
  assumes "\<forall>c \<in> set comm. \<not> is_space c" "\<not> is_space state" "length nums = 10"
    and "utime < 2 ^ 64" "stime < 2 ^ 64"
  shows "fscanf pid_stat_format (pid_stat_line p comm state nums utime stime rest)
       = [of_nat utime, of_nat stime]"
proof -
  let ?skips = "concat (map (\<lambda>d. [Space, d]) [SkipD, SkipD, SkipD, SkipD, SkipD, SkipU, SkipU, SkipU, SkipU, SkipU])"
  let ?tail = "concat (map (\<lambda>d. [Space, d]) [SkipD, SkipD, SkipD, SkipD, SkipD, SkipD, SkipU, SkipU])"
  let ?times = "Space # ReadLLU # Space # ReadLLU # ?tail"
  let ?r2 = "sp @ dec utime @ sp @ dec stime @ sp @ rest"
  let ?r1 = "sp @ (''('' @ comm @ '')'') @ sp @ [state] @ print_nums nums ?r2"
  have "fscanf pid_stat_format (pid_stat_line p comm state nums utime stime rest)
      = fscanf (SkipD # Space # SkipS # Space # SkipC # ?skips @ ?times) ([] @ dec_int p @ ?r1)"
    unfolding pid_stat_format_split pid_stat_line_def by simp
  also have "\<dots> = fscanf (Space # SkipS # Space # SkipC # ?skips @ ?times) ?r1"
    by (rule fscanf_skip_int) simp_all
  also have "\<dots> = fscanf (?skips @ ?times) (print_nums nums ?r2)"
    using assms(1,2) by (rule fscanf_comm)
  also have "\<dots> = fscanf ?times ?r2" using assms(3) by (intro fscanf_nums) simp_all
  also have "\<dots> = of_nat utime # fscanf (Space # ReadLLU # ?tail) (sp @ dec stime @ sp @ rest)"
    using assms(4) by (intro fscanf_Space_read) simp_all
  also have "fscanf (Space # ReadLLU # ?tail) (sp @ dec stime @ sp @ rest) = of_nat stime # fscanf ?tail (sp @ rest)"
    using assms(5) by (intro fscanf_Space_read) simp_all
  also have "fscanf ?tail (sp @ rest) = []" by (rule fscanf_no_reads) simp
  finally show ?thesis .
qed

theorem pid_stat_times_witness:
  "fscanf pid_stat_format (pid_stat_line 101 ''bash'' (CHR ''S'') (replicate 10 (-1)) 250 31 ''0 0'') = [250, 31]"
  using pid_stat_times [of "''bash''" "CHR ''S''" "replicate 10 (-1)" 250 31 101 "''0 0''"]
  by (simp add: is_space_def)

text \<open>
  A command name with a blank in it defeats the format string: the scan stops before the
  times, so the stored CPU usage of such a tenant is never updated.
\<close>

lemma pid_stat_times_blank_in_name:
  "fscanf pid_stat_format (pid_stat_line 101 ''Web Content'' (CHR ''S'') (replicate 10 1) utime stime rest) = []"
proof -
  have "scan_number (CHR ''o'' # s) = None" for s
    by (simp add: scan_number_def scan_sign_def is_space_def is_digit_def)
  moreover have "fscanf pid_stat_format (dec_int 101 @ s) = fscanf (tl pid_stat_format) s"
    if "ends_number s" for s
    using fscanf_skip_int [OF that, of "[]" SkipD "tl pid_stat_format" 101]
    by (simp add: pid_stat_format_def)
  ultimately show ?thesis
    by (simp add: pid_stat_line_def) (simp add: pid_stat_format_def is_space_def)
qed

section \<open>A pass of the monitor\<close>

definition readable :: "procfs \<Rightarrow> proc_state \<Rightarrow> (nat \<Rightarrow> cstr) \<Rightarrow> bool" where
  "readable fs st lines \<longleftrightarrow>
     (\<forall>i \<in> active_set st. fs_access fs (pid_stat_path (pid (tenants st ! i))) \<and>
        fs_read fs (pid_stat_path (pid (tenants st ! i))) = Some (lines i))"

definition usage_step :: "proc_state \<Rightarrow> (nat \<Rightarrow> cstr) \<Rightarrow> nat \<Rightarrow> cpu_usage \<Rightarrow> cpu_usage" where
  "usage_step st lines i c =
     (if is_active (tenants st ! i)
      then store_tenant_usage (fscanf pid_stat_format (lines i)) (unat (tenant_id (tenants st ! i))) c
      else c)"

lemma update_tenant_usage_live:
  assumes "readable fs st lines" "i < length (tenants st)" "unat (tenant_id (tenants st ! i)) < MAX_TENANTS"
  shows "update_tenant_usage fs nng_init i st = Done (st\<lparr>cpu_usage := usage_step st lines i (cpu_usage st)\<rparr>)"
  using assms by (auto simp: update_tenant_usage_def usage_step_def readable_def active_set_def Let_def)

lemma usage_step_cong [simp]: "usage_step (st\<lparr>cpu_usage := c\<rparr>) = usage_step st"
  by (simp add: usage_step_def fun_eq_iff)

lemma readable_cong [simp]: "readable fs (st\<lparr>cpu_usage := c\<rparr>) lines = readable fs st lines"
  by (simp add: readable_def active_set_def)

lemma update_tenants_usage_live:
  assumes "readable fs st lines"
    and "\<forall>i \<in> set is. i < length (tenants st) \<and> unat (tenant_id (tenants st ! i)) < MAX_TENANTS"
  shows "update_tenants_usage fs nng_init is st =
    Done (st\<lparr>cpu_usage := fold (usage_step st lines) is (cpu_usage st)\<rparr>)"
  using assms
proof (induction "is" arbitrary: st)
  case Nil
  then show ?case by simp
next
  case (Cons i "is")
  then show ?case by (simp add: update_tenant_usage_live)
qed

lemma monitor_pass_live:
  assumes "tenants_ok st" "\<forall>i < MAX_TENANTS. unat (tenant_id (tenants st ! i)) < MAX_TENANTS"
    and "fs_read fs ''/proc/stat'' = Some sys" "readable fs st lines"
  shows "sunneed_update_tenant_cpu_usage fs nng_init st =
    Done (0, st\<lparr>cpu_usage := fold (usage_step st lines) [0..<MAX_TENANTS]
      (store_system_usage (fscanf proc_stat_format sys) (cpu_usage st))\<rparr>)"
  using assms update_tenants_usage_live
    [of fs "st\<lparr>cpu_usage := store_system_usage (fscanf proc_stat_format sys) (cpu_usage st)\<rparr>"
      lines "[0..<MAX_TENANTS]" nng_init]
  by (simp add: sunneed_update_tenant_cpu_usage_def tenants_ok_def)

definition stored :: "u64 list \<Rightarrow> tenant_cpu_usage \<Rightarrow> tenant_cpu_usage" where
  "stored vs u = u\<lparr>usage_user := nth_or vs 0 (usage_user u), usage_sys := nth_or vs 1 (usage_sys u)\<rparr>"

lemma fold_usage_nth:
  assumes "ids_ok st" "distinct is" "\<forall>i \<in> set is. i < MAX_TENANTS" "length (cpu_tenants c) = MAX_TENANTS"
  shows "cpu_tenants (fold (usage_step st lines) is c) ! k =
    (if k \<in> set is \<and> is_active (tenants st ! k)
     then stored (fscanf pid_stat_format (lines k)) (cpu_tenants c ! k) else cpu_tenants c ! k)"
  using assms
proof (induction "is" arbitrary: c)
  case Nil
  then show ?case by simp
next
  case (Cons i "is")
  have "unat (tenant_id (tenants st ! i)) = i"
    using Cons.prems(1,3) by (simp add: ids_ok_def capacities unat_of_nat)
  then have step: "cpu_tenants (usage_step st lines i c) = (if is_active (tenants st ! i)
      then (cpu_tenants c)[i := stored (fscanf pid_stat_format (lines i)) (cpu_tenants c ! i)]
      else cpu_tenants c)"
    by (simp add: usage_step_def store_tenant_usage_def stored_def Let_def)
  show ?case
    using Cons.IH [of "usage_step st lines i c"] Cons.prems step by (auto simp: nth_list_update)
qed

lemma fold_usage_nth_zero:
  assumes "\<forall>i \<in> set is. tenant_id (tenants st ! i) = 0" "0 < k"
  shows "cpu_tenants (fold (usage_step st lines) is c) ! k = cpu_tenants c ! k"
  using assms
proof (induction "is" arbitrary: c)
  case Nil
  then show ?case by simp
next
  case (Cons i "is")
  have "cpu_tenants (usage_step st lines i c) ! k = cpu_tenants c ! k"
    using Cons.prems by (simp add: usage_step_def store_tenant_usage_def Let_def)
  with Cons show ?case by simp
qed

lemma ids_ok_bound: "ids_ok st \<Longrightarrow> i < MAX_TENANTS \<Longrightarrow> unat (tenant_id (tenants st ! i)) < MAX_TENANTS"
  by (simp add: ids_ok_def capacities unat_of_nat)

lemma store_system_usage_tenants [simp]: "cpu_tenants (store_system_usage vs c) = cpu_tenants c"
  by (simp add: store_system_usage_def)

text \<open>
  C32. A pass of the monitor over live tenants. When every active tenant's file can be read
  and identifiers are indices, the pass returns 0, changes no tenant and no pipe entry, and
  the usage record of each active tenant holds the times scanned from its own file, while
  the records of inactive tenants are untouched.
\<close>

theorem cpu_pass_records_usage:
  assumes "tenants_ok st" "ids_ok st" "length (cpu_tenants (cpu_usage st)) = MAX_TENANTS"
    and "fs_read fs ''/proc/stat'' = Some sys" "readable fs st lines"
  shows "\<exists>st'. sunneed_update_tenant_cpu_usage fs nng_init st = Done (0, st') \<and>
    tenants st' = tenants st \<and> tenant_pipes st' = tenant_pipes st \<and>
    (\<forall>k < MAX_TENANTS. cpu_tenants (cpu_usage st') ! k =
       (if is_active (tenants st ! k)
        then stored (fscanf pid_stat_format (lines k)) (cpu_tenants (cpu_usage st) ! k)
        else cpu_tenants (cpu_usage st) ! k))"
  using assms monitor_pass_live [OF assms(1) _ assms(4,5)] ids_ok_bound [OF assms(2)]
    fold_usage_nth [OF assms(2), of "[0..<MAX_TENANTS]"] by simp

text \<open>
  With the identifiers that the daemon really has (all 0), every live tenant's times go
  to usage record 0: a pass leaves the records 1 to 3 as they were.
\<close>

lemma cpu_pass_zero_ids:
  assumes "tenants_ok st" "\<forall>u < MAX_TENANTS. tenant_id (tenants st ! u) = 0"
    and "fs_read fs ''/proc/stat'' = Some sys" "readable fs st lines"
  shows "\<exists>st'. sunneed_update_tenant_cpu_usage fs nng_init st = Done (0, st') \<and>
    (\<forall>k > 0. cpu_tenants (cpu_usage st') ! k = cpu_tenants (cpu_usage st) ! k)"
  using assms monitor_pass_live [OF assms(1) _ assms(3,4)] fold_usage_nth_zero [of "[0..<MAX_TENANTS]" st]
  by (simp add: capacities)

section \<open>Examples\<close>

text \<open>The files of two live clients.\<close>

definition demo_text :: "nat \<Rightarrow> cstr" where
  "demo_text i = (if i = 0 then pid_stat_line 100 ''sh'' (CHR ''S'') (replicate 10 1) 7 8 []
                  else pid_stat_line 101 ''cat'' (CHR ''R'') (replicate 10 1) 9 10 [])"

definition demo_procfs :: procfs where
  "demo_procfs =
     \<lparr>fs_access = (\<lambda>p. p = pid_stat_path 100 \<or> p = pid_stat_path 101),
      fs_read = (\<lambda>p. if p = ''/proc/stat'' then Some ''cpu  4 3 2 1''
                     else if p = pid_stat_path 100 then Some (demo_text 0)
                     else if p = pid_stat_path 101 then Some (demo_text 1)
                     else None)\<rparr>"

lemma pid_stat_path_inj [simp]: "pid_stat_path p = pid_stat_path q \<longleftrightarrow> p = q"
  by (simp add: pid_stat_path_def)

lemma pid_stat_path_not_stat [simp]: "pid_stat_path p \<noteq> ''/proc/stat''"
proof
  assume "pid_stat_path p = ''/proc/stat''"
  then have "length (pid_stat_path p) = length ''/proc/stat''" by simp
  then have "dec_int p = []" by (simp add: pid_stat_path_def)
  then show False by (simp add: dec_int_def split: if_splits)
qed

lemma demo_readable:
  assumes "length (tenants st) = MAX_TENANTS" "active_set st = {}"
  shows "readable demo_procfs (two_tenants st) demo_text"
proof -
  have "active_set (two_tenants st) = {0, 1}"
    using assms by (auto simp: two_tenants_def active_set_attach capacities attach_def active_set_def
        activate_def nth_list_update split: if_splits)
  moreover have "pid (tenants (two_tenants st) ! 0) = 100" "pid (tenants (two_tenants st) ! 1) = 101"
    using assms(1) by (simp_all add: two_tenants_def attach_def activate_def capacities)
  ultimately show ?thesis by (simp add: readable_def demo_procfs_def)
qed

theorem cpu_pass_records_usage_witness:
  "\<exists>st'. sunneed_update_tenant_cpu_usage demo_procfs 0 (two_tenants fresh_proc) = Done (0, st') \<and>
     cpu_tenants (cpu_usage st') ! 1 = \<lparr>usage_user = 9, usage_sys = 10\<rparr>"
proof -
  let ?st = "two_tenants fresh_proc"
  note S = two_tenants_shape [OF fresh_proc_ok(1) fresh_proc_inactive(1)]
  have ids: "ids_ok ?st" unfolding two_tenants_def by (intro attach_ids_ok fresh_proc_ok)
  have c: "cpu_tenants (cpu_usage ?st) = replicate MAX_TENANTS \<lparr>usage_user = 0, usage_sys = 0\<rparr>"
    by (simp add: two_tenants_def attach_def fresh_proc_def sunneed_init_tenants_def proc_static_def)
  have rd: "readable demo_procfs ?st demo_text"
    using registry_okD(1) [OF fresh_proc_ok(1)] fresh_proc_inactive(1) by (rule demo_readable)
  have "fscanf pid_stat_format (demo_text 1) = [9, 10]"
    using pid_stat_times [of "''cat''" "CHR ''R''" "replicate 10 1" 9 10 101 "[]"]
    by (simp add: demo_text_def is_space_def)
  then have st: "stored (fscanf pid_stat_format (demo_text 1)) (cpu_tenants (cpu_usage ?st) ! 1)
      = \<lparr>usage_user = 9, usage_sys = 10\<rparr>"
    by (simp add: c stored_def nth_or_def capacities)
  have fs: "fs_read demo_procfs ''/proc/stat'' = Some ''cpu  4 3 2 1''" by (simp add: demo_procfs_def)
  have len: "length (cpu_tenants (cpu_usage ?st)) = MAX_TENANTS" by (simp add: c)
  from cpu_pass_records_usage [OF registry_ok_tenants_ok [OF S(1)] ids len fs rd, of 0] st S(5)
  show ?thesis by (auto simp: capacities)
qed

lemma cpu_pass_zero_ids_example:
  "\<exists>st'. sunneed_update_tenant_cpu_usage demo_procfs 0 (two_tenants proc_static) = Done (0, st') \<and>
     (\<forall>k > 0. cpu_tenants (cpu_usage st') ! k = cpu_tenants (cpu_usage (two_tenants proc_static)) ! k)"
proof -
  note S = two_tenants_shape [OF proc_static_ok fresh_proc_inactive(2)]
  have ids: "\<forall>u < MAX_TENANTS. tenant_id (tenants (two_tenants proc_static) ! u) = 0"
    by (auto simp: two_tenants_def attach_def activate_def proc_static_def zero_tenant_def
        nth_list_update capacities)
  have rd: "readable demo_procfs (two_tenants proc_static) demo_text"
    using registry_okD(1) [OF proc_static_ok] fresh_proc_inactive(2) by (rule demo_readable)
  show ?thesis
    by (rule cpu_pass_zero_ids [OF registry_ok_tenants_ok [OF S(1)] ids _ rd, where sys = "''cpu  4 3 2 1''"])
      (simp add: demo_procfs_def)
qed

end
