(* ===== verification/Sunneed_Power.thy ===== *)
theory Sunneed_Power
  imports Sunneed_Proc
begin

text \<open>
  Power accounting per quantum: \<^verbatim>\<open>src/src/sunneed_power.c\<close> and \<^verbatim>\<open>sunneed_power.h\<close>, with the
  power information provider of \<^verbatim>\<open>pip/bq27441.c\<close> as its source of readings.

  The usage events of a quantum are a linked list in the C heap: \<open>ev_heap\<close> maps addresses to
  nodes, a node whose event was never written holds \<open>None\<close> there, and following a pointer to
  an address outside the heap is a use after free. The loops over the list are
  \<^theory_text>\<open>partial_function (option)\<close>: \<open>None\<close> means that the loop does not end, and the lemmas show
  that it ends on every list that \<open>events_at\<close> describes. The answer of each \<^verbatim>\<open>malloc\<close> is an
  argument, \<open>None\<close> when it fails.
\<close>

section \<open>State\<close>

record power_event =
  ev_timestamp :: "int \<times> int"
  ev_tenant :: "nat option"
  ev_device :: "nat option"
  ev_args :: "nat option"

record ev_node =
  node_ev :: "power_event option"
  node_next :: "nat option"

type_synonym ev_heap = "nat \<Rightarrow> ev_node option"

record quantum =
  q_id :: int
  q_present_power :: int
  q_begin_time :: "int \<times> int"
  q_is_active :: bool
  q_has_power_event :: bool

record power_state =
  current_quantum :: quantum
  power_usage_evs :: "nat option"
  ev_heap :: ev_heap

definition power_static :: power_state where
  "power_static =
     \<lparr>current_quantum = \<lparr>q_id = -1, q_present_power = 0, q_begin_time = (0, 0), q_is_active = False,
        q_has_power_event = False\<rparr>,
      power_usage_evs = None, ev_heap = (\<lambda>_. None)\<rparr>"

record sunneed_pip =
  pip_name :: cstr
  max_power :: u32
  update_interval :: u32

definition pip_info :: sunneed_pip where
  "pip_info = \<lparr>pip_name = ''bq27441'', max_power = 1000, update_interval = 50\<rparr>"

text \<open>A computation that may not end, and if it does has an outcome.\<close>

type_synonym 'a prog = "'a outcome option"

definition pbind :: "'a prog \<Rightarrow> ('a \<Rightarrow> 'b prog) \<Rightarrow> 'b prog" where
  "pbind m f =
     (case m of
        None \<Rightarrow> None
      | Some (Done x) \<Rightarrow> f x
      | Some (Exited c) \<Rightarrow> Some (Exited c)
      | Some (Fault e) \<Rightarrow> Some (Fault e)
      | Some Blocked \<Rightarrow> Some Blocked)"

section \<open>Recording an event\<close>

partial_function (option) events_tail :: "ev_heap \<Rightarrow> nat \<Rightarrow> nat prog" where
  "events_tail h cur =
     (case h cur of
        None \<Rightarrow> Some (Fault UseAfterFree)
      | Some n \<Rightarrow> (case node_next n of None \<Rightarrow> Some (Done cur) | Some next \<Rightarrow> events_tail h next))"

definition set_next :: "nat \<Rightarrow> nat option \<Rightarrow> ev_heap \<Rightarrow> ev_heap" where
  "set_next a p h = h(a := map_option (\<lambda>n. n\<lparr>node_next := p\<rparr>) (h a))"

definition sunneed_record_power_usage_event ::
    "ev_node \<Rightarrow> nat option \<Rightarrow> power_state \<Rightarrow> (int \<times> power_state) prog" where
  "sunneed_record_power_usage_event ev malloc st =
     (if \<not> q_is_active (current_quantum st) then Some (Done (1, st))
      else case power_usage_evs st of
             None \<Rightarrow> Some (Done (1, st))
           | Some head \<Rightarrow>
               pbind (events_tail (ev_heap st) head) (\<lambda>cur.
                 case malloc of
                   None \<Rightarrow> Some (Done (1, st\<lparr>ev_heap := set_next cur None (ev_heap st)\<rparr>))
                 | Some new \<Rightarrow>
                     Some (Done (0, st\<lparr>
                       ev_heap := (set_next cur (Some new) (ev_heap st))(new := Some ev),
                       current_quantum := (current_quantum st)\<lparr>q_has_power_event := True\<rparr>\<rparr>))))"

section \<open>Beginning a quantum\<close>

partial_function (option) free_events :: "ev_heap \<Rightarrow> nat option \<Rightarrow> ev_heap prog" where
  "free_events h cur =
     (case cur of
        None \<Rightarrow> Some (Done h)
      | Some a \<Rightarrow>
          (case h a of
             None \<Rightarrow> Some (Fault UseAfterFree)
           | Some n \<Rightarrow> free_events (h(a := None)) (node_next n)))"

definition fresh_head :: ev_node where
  "fresh_head = \<lparr>node_ev = None, node_next = None\<rparr>"

text \<open>\<open>reading\<close> is the value of \<open>present_power\<close>, \<open>now\<close> the time \<^verbatim>\<open>timespec_get\<close> stores.\<close>

definition sunneed_quantum_begin ::
    "u32 \<Rightarrow> int \<times> int \<Rightarrow> nat option \<Rightarrow> power_state \<Rightarrow> (int \<times> power_state) prog" where
  "sunneed_quantum_begin reading now malloc st =
     (if q_id (current_quantum st) = 2 ^ 31 - 1 then Some (Fault IntOverflow)
      else
        let q = (current_quantum st)\<lparr>q_id := q_id (current_quantum st) + 1,
                  q_present_power := int_of_u32 reading, q_begin_time := now\<rparr>
        in pbind (free_events (ev_heap st) (power_usage_evs st)) (\<lambda>h.
             case malloc of
               None \<Rightarrow> Some (Done (1, \<lparr>current_quantum = q, power_usage_evs = None, ev_heap = h\<rparr>))
             | Some head \<Rightarrow>
                 Some (Done (0, \<lparr>current_quantum = q\<lparr>q_is_active := True\<rparr>,
                   power_usage_evs = Some head, ev_heap = h(head := Some fresh_head)\<rparr>))))"

section \<open>Ending a quantum\<close>

partial_function (option) sum_events ::
    "sunneed_tenant list \<Rightarrow> bool \<Rightarrow> ev_heap \<Rightarrow> nat option \<Rightarrow> cfloat list \<Rightarrow> cfloat list prog" where
  "sum_events ts has_power_event h ev power_consumed =
     (case ev of
        None \<Rightarrow> Some (Done power_consumed)
      | Some a \<Rightarrow>
          if \<not> has_power_event then Some (Done power_consumed)
          else (case h a of
             None \<Rightarrow> Some (Fault UseAfterFree)
           | Some n \<Rightarrow>
               (case node_ev n of
                  None \<Rightarrow> Some (Fault UninitRead)
                | Some e \<Rightarrow>
                    (case ev_tenant e of
                       None \<Rightarrow> Some (Fault NullDeref)
                     | Some t \<Rightarrow>
                         if MAX_TENANTS \<le> unat (tenant_id (ts ! t)) then Some (Fault OutOfBounds)
                         else sum_events ts has_power_event h (node_next n)
                           (power_consumed[unat (tenant_id (ts ! t)) :=
                              (if ev_device e = None
                               then fadd binary64 (power_consumed ! unat (tenant_id (ts ! t))) (Zero False)
                               else fadd binary64 (power_consumed ! unat (tenant_id (ts ! t))) (Zero False))])))))"

text \<open>
  \<^verbatim>\<open>1.0 - power_consumed[i] / (present_power * power_proportion)\<close>: the product is of type
  \<open>float\<close>, the rest is computed in \<open>double\<close> and stored as \<open>float\<close>.
\<close>

definition unscaled_proportion :: "cfloat \<Rightarrow> int \<Rightarrow> cfloat \<Rightarrow> cfloat" where
  "unscaled_proportion consumed present proportion =
     fconv binary32 (fsub binary64 (Num 1)
       (fdiv binary64 consumed
         (fconv binary64 (fmul binary32 (float_of_int binary32 present) proportion))))"

definition rescale :: "cfloat list \<Rightarrow> cfloat list" where
  "rescale unscaled =
     (let unscaled_sum = foldl (fadd binary32) (Zero False) unscaled;
          scale_factor = fconv binary32 (fdiv binary64 (Num 1) (fconv binary64 unscaled_sum))
      in map (\<lambda>u. fmul binary32 u scale_factor) unscaled)"

definition set_proportions :: "cfloat list \<Rightarrow> sunneed_tenant list \<Rightarrow> sunneed_tenant list" where
  "set_proportions ps ts = map2 (\<lambda>t p. t\<lparr>power_proportion := p\<rparr>) ts ps"

definition sunneed_quantum_end ::
    "power_state \<Rightarrow> sunneed_tenant list \<Rightarrow> (int \<times> power_state \<times> sunneed_tenant list) prog" where
  "sunneed_quantum_end st ts =
     (let st' = st\<lparr>current_quantum := (current_quantum st)\<lparr>q_is_active := False\<rparr>\<rparr>
      in pbind (sum_events ts (q_has_power_event (current_quantum st)) (ev_heap st) (power_usage_evs st)
                  (replicate MAX_TENANTS (Zero False)))
           (\<lambda>consumed.
              let unscaled = map (\<lambda>i. unscaled_proportion (consumed ! i) (q_present_power (current_quantum st))
                                        (power_proportion (ts ! i))) [0..<MAX_TENANTS]
              in Some (Done (0, st', set_proportions (rescale unscaled) ts))))"

section \<open>The quantum thread\<close>

text \<open>
  What the thread meets in one quantum: the reading, the time, the answer of \<open>malloc\<close>, and the
  events that are recorded while it sleeps, each with the answer of its \<open>malloc\<close>.
\<close>

record quantum_env =
  env_power :: u32
  env_now :: "int \<times> int"
  env_malloc :: "nat option"
  env_events :: "(ev_node \<times> nat option) list"

primrec record_events :: "(ev_node \<times> nat option) list \<Rightarrow> power_state \<Rightarrow> power_state prog" where
  "record_events [] st = Some (Done st)"
| "record_events (e # es) st =
     pbind (sunneed_record_power_usage_event (fst e) (snd e) st) (\<lambda>r. record_events es (snd r))"

text \<open>
  The worker over a list of quanta. The boolean of the result is whether the thread is still
  running after them.
\<close>

primrec quantum_loop ::
    "quantum_env list \<Rightarrow> power_state \<Rightarrow> sunneed_tenant list \<Rightarrow>
     (bool \<times> power_state \<times> sunneed_tenant list) prog" where
  "quantum_loop [] st ts = Some (Done (True, st, ts))"
| "quantum_loop (e # es) st ts =
     pbind (sunneed_quantum_begin (env_power e) (env_now e) (env_malloc e) st) (\<lambda>b.
       if fst b \<noteq> 0 then Some (Done (False, snd b, ts))
       else pbind (record_events (env_events e) (snd b)) (\<lambda>st1.
         pbind (sunneed_quantum_end st1 ts) (\<lambda>r.
           if fst r \<noteq> 0 then Some (Done (False, snd r))
           else quantum_loop es (fst (snd r)) (snd (snd r)))))"

definition sunneed_quantum_worker ::
    "quantum_env list \<Rightarrow> power_state \<Rightarrow> sunneed_tenant list \<Rightarrow>
     (bool \<times> power_state \<times> sunneed_tenant list) prog" where
  "sunneed_quantum_worker es st ts = quantum_loop es (st\<lparr>power_usage_evs := None\<rparr>) ts"

section \<open>The list of events\<close>

primrec events_at :: "ev_heap \<Rightarrow> nat option \<Rightarrow> nat list \<Rightarrow> bool" where
  "events_at h p [] \<longleftrightarrow> p = None"
| "events_at h p (a # as) \<longleftrightarrow> p = Some a \<and> (\<exists>n. h a = Some n \<and> events_at h (node_next n) as)"

text \<open>The heap holds exactly the nodes of the list: nothing is leaked, nothing dangles.\<close>

definition power_ok :: "power_state \<Rightarrow> nat list \<Rightarrow> bool" where
  "power_ok st as \<longleftrightarrow> events_at (ev_heap st) (power_usage_evs st) as \<and> dom (ev_heap st) = set as"

section \<open>Lemmas on the list\<close>

lemma pbind_simps [simp]:
  "pbind None f = None" "pbind (Some (Done x)) f = f x"
  "pbind (Some (Exited c)) f = Some (Exited c)" "pbind (Some (Fault e)) f = Some (Fault e)"
  "pbind (Some Blocked) f = Some Blocked"
  by (simp_all add: pbind_def)

lemma pbind_Done_iff: "pbind m f = Some (Done y) \<longleftrightarrow> (\<exists>x. m = Some (Done x) \<and> f x = Some (Done y))"
  by (cases m rule: option.exhaust; cases "the m") auto

lemma events_at_unique: "events_at h p as \<Longrightarrow> events_at h p bs \<Longrightarrow> as = bs"
proof (induction as arbitrary: p bs)
  case Nil
  then show ?case by (cases bs) auto
next
  case (Cons a as)
  then show ?case by (cases bs) auto
qed

lemma events_at_append:
  "events_at h p (as @ a # bs) \<Longrightarrow> events_at h (Some a) (a # bs)"
  by (induction as arbitrary: p) auto

lemma events_at_distinct: "events_at h p as \<Longrightarrow> distinct as"
proof (induction as arbitrary: p)
  case Nil
  then show ?case by simp
next
  case (Cons a as)
  have "a \<notin> set as"
  proof
    assume "a \<in> set as"
    then obtain xs ys where as: "as = xs @ a # ys" by (meson split_list)
    have "events_at h (Some a) (a # as)" using Cons.prems by simp
    moreover have "events_at h (Some a) (a # ys)"
      using Cons.prems events_at_append [of h p "a # xs" a ys] by (simp add: as)
    ultimately show False using events_at_unique [of h "Some a" "a # as" "a # ys"] as by simp
  qed
  with Cons show ?case by auto
qed

lemma events_at_dom: "events_at h p as \<Longrightarrow> set as \<subseteq> dom h"
  by (induction as arbitrary: p) auto

lemma events_at_upd: "b \<notin> set as \<Longrightarrow> events_at (h(b := x)) p as = events_at h p as"
  by (induction as arbitrary: p) auto



lemma free_events_list:
  "events_at h p as \<Longrightarrow> free_events h p = Some (Done (\<lambda>x. if x \<in> set as then None else h x))"
proof (induction as arbitrary: h p)
  case Nil
  then show ?case by (simp add: free_events.simps)
next
  case (Cons a as)
  then obtain n where n: "p = Some a" "h a = Some n" "events_at h (node_next n) as" by auto
  have "a \<notin> set as" using events_at_distinct [OF Cons.prems] by simp
  then have "events_at (h(a := None)) (node_next n) as" using n(3) by (simp add: events_at_upd)
  from Cons.IH [OF this]
  have "free_events h p = Some (Done (\<lambda>x. if x \<in> set as then None else (h(a := None)) x))"
    using n(1,2) by (subst free_events.simps) (simp del: fun_upd_apply)
  moreover have "(\<lambda>x. if x \<in> set as then None else (h(a := None)) x) =
      (\<lambda>x. if x \<in> set (a # as) then None else h x)" by auto
  ultimately show ?case by simp
qed

lemma power_ok_free: "power_ok st as \<Longrightarrow> free_events (ev_heap st) (power_usage_evs st) = Some (Done (\<lambda>_. None))"
  unfolding power_ok_def using free_events_list [of "ev_heap st" "power_usage_evs st" as]
  by (auto simp: fun_eq_iff domIff)

section \<open>Properties of the event list\<close>






definition demo_power :: power_state where
  "demo_power = \<lparr>current_quantum = \<lparr>q_id = 0, q_present_power = 500, q_begin_time = (0, 0),
      q_is_active = True, q_has_power_event = False\<rparr>,
     power_usage_evs = Some 16, ev_heap = [16 \<mapsto> fresh_head]\<rparr>"

definition demo_event :: ev_node where
  "demo_event = \<lparr>node_ev = Some \<lparr>ev_timestamp = (1, 2), ev_tenant = Some 0, ev_device = None, ev_args = None\<rparr>,
     node_next = None\<rparr>"

lemma demo_power_ok: "power_ok demo_power [16]"
  by (auto simp: power_ok_def demo_power_def fresh_head_def)


text \<open>
  Outside an active quantum, or before a first quantum has allocated the list, an event
  is refused with 1 and nothing changes.
\<close>

lemma record_event_refused:
  assumes "\<not> q_is_active (current_quantum st) \<or> power_usage_evs st = None"
  shows "sunneed_record_power_usage_event ev malloc st = Some (Done (1, st))"
  using assms by (auto simp: sunneed_record_power_usage_event_def)

lemma record_event_refused_example:
  "sunneed_record_power_usage_event demo_event (Some 32) power_static = Some (Done (1, power_static))"
  by (rule record_event_refused) (simp add: power_static_def)

text \<open>
  C18. Beginning a quantum frees every node of the old list and nothing else: the call ends,
  returns 0 when memory is available and the counter of quanta is below the largest \<open>int\<close>,
  advances the quantum, and afterwards the heap holds only the new head.
\<close>

theorem quantum_begin_resets:
  assumes "power_ok st as" "q_id (current_quantum st) < 2 ^ 31 - 1"
  shows "\<exists>st'. sunneed_quantum_begin reading now (Some head) st = Some (Done (0, st')) \<and>
    power_ok st' [head] \<and> ev_heap st' = [head \<mapsto> fresh_head] \<and>
    q_id (current_quantum st') = q_id (current_quantum st) + 1 \<and>
    q_present_power (current_quantum st') = sint reading \<and> q_is_active (current_quantum st')"
  using assms power_ok_free [OF assms(1)]
  by (auto simp: sunneed_quantum_begin_def power_ok_def fresh_head_def Let_def int_of_u32_def)

theorem quantum_begin_resets_witness:
  "\<exists>st'. sunneed_quantum_begin 700 (5, 6) (Some 48) demo_power = Some (Done (0, st')) \<and>
     power_ok st' [48] \<and> ev_heap st' = [48 \<mapsto> fresh_head] \<and> q_id (current_quantum st') = 1 \<and>
     q_present_power (current_quantum st') = 700 \<and> q_is_active (current_quantum st')"
  using quantum_begin_resets [OF demo_power_ok, of 700 "(5, 6)" 48] by (simp add: demo_power_def)

text \<open>
  C21. The first recorded event makes the end of the quantum undefined: the summation starts
  at the head node, whose event was never written.
\<close>

theorem quantum_end_after_event_faults:
  assumes "sunneed_quantum_begin reading now (Some head) st0 = Some (Done (0, st1))"
    and "sunneed_record_power_usage_event ev (Some new) st1 = Some (Done (0, st2))" "new \<noteq> head"
  shows "sunneed_quantum_end st2 ts = Some (Fault UninitRead)"
proof -
  from assms(1) have st1: "power_usage_evs st1 = Some head" "ev_heap st1 head = Some fresh_head"
    "q_is_active (current_quantum st1)"
    by (auto simp: sunneed_quantum_begin_def Let_def pbind_Done_iff split: if_splits)
  then have "events_tail (ev_heap st1) head = Some (Done head)"
    by (subst events_tail.simps) (simp add: fresh_head_def)
  with assms(2,3) st1 have st2: "power_usage_evs st2 = Some head" "q_has_power_event (current_quantum st2)"
    "\<exists>n. ev_heap st2 head = Some n \<and> node_ev n = None"
    by (auto simp: sunneed_record_power_usage_event_def set_next_def fresh_head_def)
  then have "sum_events ts (q_has_power_event (current_quantum st2)) (ev_heap st2) (power_usage_evs st2) pc
      = Some (Fault UninitRead)" for pc
    by (subst sum_events.simps) auto
  then show ?thesis by (simp add: sunneed_quantum_end_def Let_def)
qed

theorem quantum_end_after_event_faults_witness:
  "\<exists>st1 st2. sunneed_quantum_begin 700 (5, 6) (Some 48) demo_power = Some (Done (0, st1)) \<and>
     sunneed_record_power_usage_event demo_event (Some 64) st1 = Some (Done (0, st2)) \<and>
     sunneed_quantum_end st2 [] = Some (Fault UninitRead)"
proof -
  obtain st1 where st1: "sunneed_quantum_begin 700 (5, 6) (Some 48) demo_power = Some (Done (0, st1))"
    "ev_heap st1 = [48 \<mapsto> fresh_head]" "power_usage_evs st1 = Some 48" "q_is_active (current_quantum st1)"
    using power_ok_free [OF demo_power_ok]
    by (simp add: sunneed_quantum_begin_def Let_def) (simp add: demo_power_def)
  have "events_tail (ev_heap st1) 48 = Some (Done 48)"
    using st1(2) by (subst events_tail.simps) (simp add: fresh_head_def)
  then obtain st2 where st2: "sunneed_record_power_usage_event demo_event (Some 64) st1 = Some (Done (0, st2))"
    using st1 by (simp add: sunneed_record_power_usage_event_def)
  from quantum_end_after_event_faults [OF st1(1) st2] st1(1) st2 show ?thesis by simp
qed

section \<open>Lemmas on the proportions\<close>

lemma fmul_at_least:
  assumes "at_least 1 x" "at_least (pow2 j) y" "min_exp F \<le> j" "1 \<le> precision F"
  shows "at_least (pow2 j) (fmul F x y)"
proof (cases "\<exists>a b. x = Num a \<and> y = Num b")
  case True
  then obtain a b where xy: "x = Num a" "y = Num b" by blast
  then have "1 * pow2 j \<le> \<bar>a\<bar> * \<bar>b\<bar>"
    using assms(1,2) by (intro mult_mono) (auto simp: at_least_def less_imp_le)
  with xy show ?thesis using assms(3,4) by (simp add: round_to_at_least abs_mult)
next
  case False
  with assms(1,2) show ?thesis by (cases x; cases y) (auto simp: at_least_def)
qed

lemma fconv_at_least:
  "\<lbrakk>at_least (pow2 j) x; min_exp F \<le> j; 1 \<le> precision F\<rbrakk> \<Longrightarrow> at_least (pow2 j) (fconv F x)"
  by (cases x) (auto simp: at_least_def round_to_at_least [unfolded at_least_def])

lemma float_of_int_at_least:
  assumes "n \<noteq> 0" "min_exp F \<le> 0" "1 \<le> precision F"
  shows "at_least 1 (float_of_int F n)"
proof -
  have "pow2 0 \<le> \<bar>rat_of_int n\<bar>" using assms(1) by (simp add: pow2_def flip: of_int_abs)
  from round_to_at_least [OF this assms(2,3)] show ?thesis
    by (simp add: float_of_int_def pow2_def)
qed

lemma fdiv_Zero_at_least: "at_least b x \<Longrightarrow> 0 < b \<Longrightarrow> \<exists>s. fdiv F (Zero t) x = Zero s"
  by (cases x) (auto simp: at_least_def)

text \<open>Nothing consumed and a nonzero share: the tenant keeps all of its weight.\<close>

lemma unscaled_one:
  assumes "present \<noteq> 0" "at_least (pow2 (-149)) p"
  shows "unscaled_proportion (Zero False) present p = Num 1"
proof -
  let ?d = "fconv binary64 (fmul binary32 (float_of_int binary32 present) p)"
  have "at_least (pow2 (-149)) ?d" using assms
    by (intro fconv_at_least fmul_at_least float_of_int_at_least) (simp_all add: binary32_def binary64_def)
  then obtain s where "fdiv binary64 (Zero False) ?d = Zero s"
    using fdiv_Zero_at_least [of "pow2 (-149)" ?d binary64 False] by auto
  then show ?thesis by (simp add: unscaled_proportion_def fsub_def)
qed

definition is_zero_or_nan :: "cfloat \<Rightarrow> bool" where
  "is_zero_or_nan x \<longleftrightarrow> (case x of NaN \<Rightarrow> True | Zero s \<Rightarrow> True | _ \<Rightarrow> False)"

lemma is_zero_or_nan_simps [simp]:
  "is_zero_or_nan NaN" "is_zero_or_nan (Zero s)" "\<not> is_zero_or_nan (Num q)" "\<not> is_zero_or_nan (Inf s)"
  by (simp_all add: is_zero_or_nan_def)

lemma fmul_zero_or_nan:
  "is_zero_or_nan x \<or> is_zero_or_nan y \<Longrightarrow> is_zero_or_nan (fmul F x y)"
  by (cases x; cases y) auto

lemma unscaled_nan:
  assumes "present = 0 \<or> is_zero_or_nan p"
  shows "unscaled_proportion (Zero False) present p = NaN"
proof -
  have "is_zero_or_nan (fmul binary32 (float_of_int binary32 present) p)"
    using assms by (intro fmul_zero_or_nan) (auto simp: float_of_int_def round_to_def)
  then show ?thesis
    by (cases "fmul binary32 (float_of_int binary32 present) p") (simp_all add: unscaled_proportion_def)
qed

lemma foldl_fadd_NaN: "foldl (fadd F) NaN xs = NaN"
  by (induction xs) simp_all

lemma foldl_fadd_mem: "NaN \<in> set xs \<Longrightarrow> foldl (fadd F) x xs = NaN"
  by (induction xs arbitrary: x) (auto simp: foldl_fadd_NaN)

lemma rescale_nan: "NaN \<in> set us \<Longrightarrow> rescale us = replicate (length us) NaN"
  by (simp add: rescale_def foldl_fadd_mem map_replicate_const)

lemma rescale_ones: "rescale (replicate 4 (Num 1)) = replicate 4 (Num (1 / 4))"
  by (simp add: rescale_def numeral_eq_Suc Let_def)

lemma proportions_set:
  "length ps = length ts \<Longrightarrow> map power_proportion (set_proportions ps ts) = ps"
  by (auto simp: set_proportions_def intro: nth_equalityI)

lemma set_proportions_keeps:
  "length ps = length ts \<Longrightarrow>
   map (\<lambda>t. (tenant_id t, pid t, is_active t)) (set_proportions ps ts) = map (\<lambda>t. (tenant_id t, pid t, is_active t)) ts"
  by (auto simp: set_proportions_def intro: nth_equalityI)

lemma sum_events_no_event: "sum_events ts False h p pc = Some (Done pc)"
  by (cases p) (simp_all add: sum_events.simps)

lemma quantum_end_no_event:
  assumes "\<not> q_has_power_event (current_quantum st)" "length ts = MAX_TENANTS"
  shows "sunneed_quantum_end st ts =
    Some (Done (0, st\<lparr>current_quantum := (current_quantum st)\<lparr>q_is_active := False\<rparr>\<rparr>,
      set_proportions (rescale (map (\<lambda>t. unscaled_proportion (Zero False)
        (q_present_power (current_quantum st)) (power_proportion t)) ts)) ts))"
proof -
  have "map (\<lambda>i. unscaled_proportion (replicate MAX_TENANTS (Zero False) ! i)
          (q_present_power (current_quantum st)) (power_proportion (ts ! i))) [0..<MAX_TENANTS] =
        map (\<lambda>t. unscaled_proportion (Zero False) (q_present_power (current_quantum st)) (power_proportion t)) ts"
    using assms(2) by (intro nth_equalityI) auto
  then show ?thesis using assms(1) by (simp add: sunneed_quantum_end_def sum_events_no_event Let_def)
qed

section \<open>Properties of the proportions\<close>

text \<open>
  C16. A quantum in which no tenant consumed anything ends with equal shares that add up to
  one, from shares that are positive numbers (not zero and not NaN) and for every power reading that is not zero; the
  rounding of \<open>float\<close> and \<open>double\<close> loses nothing. The call changes no other field of a tenant
  and closes the quantum.
\<close>

theorem quantum_end_equal_shares:
  assumes "\<not> q_has_power_event (current_quantum st)" "length ts = MAX_TENANTS"
    and "q_present_power (current_quantum st) \<noteq> 0"
    and "\<And>t. t \<in> set ts \<Longrightarrow> at_least (pow2 (-149)) (power_proportion t)"
  shows "\<exists>st' ts'. sunneed_quantum_end st ts = Some (Done (0, st', ts')) \<and>
    map power_proportion ts' = replicate MAX_TENANTS (Num (1 / 4)) \<and>
    map (\<lambda>t. (tenant_id t, pid t, is_active t)) ts' = map (\<lambda>t. (tenant_id t, pid t, is_active t)) ts \<and>
    \<not> q_is_active (current_quantum st')"
proof -
  have "map (\<lambda>t. unscaled_proportion (Zero False) (q_present_power (current_quantum st)) (power_proportion t)) ts
      = replicate 4 (Num 1)"
    using assms(2-4) by (auto simp: unscaled_one capacities intro!: replicate_eqI)
  then show ?thesis
    using assms(2) quantum_end_no_event [OF assms(1,2)]
    by (simp add: rescale_ones proportions_set set_proportions_keeps capacities)
qed

definition shared_tenants :: "sunneed_tenant list" where
  "shared_tenants = map (\<lambda>i. zero_tenant\<lparr>tenant_id := of_nat i, power_proportion := Num (1 / of_nat (Suc i))\<rparr>) [0..<4]"

theorem quantum_end_equal_shares_witness:
  "\<exists>st' ts'. sunneed_quantum_end demo_power shared_tenants = Some (Done (0, st', ts')) \<and>
     map power_proportion ts' = [Num (1 / 4), Num (1 / 4), Num (1 / 4), Num (1 / 4)] \<and>
     map tenant_id ts' = [0, 1, 2, 3]"
proof -
  have "at_least (pow2 (-149)) (power_proportion t)" if "t \<in> set shared_tenants" for t
    using that by (auto simp: shared_tenants_def at_least_def pow2_def)
  moreover have "\<not> q_has_power_event (current_quantum demo_power)" "length shared_tenants = MAX_TENANTS"
    "q_present_power (current_quantum demo_power) \<noteq> 0"
    by (simp_all add: demo_power_def shared_tenants_def capacities)
  ultimately obtain st' ts' where r: "sunneed_quantum_end demo_power shared_tenants = Some (Done (0, st', ts'))"
    "map power_proportion ts' = replicate MAX_TENANTS (Num (1 / 4))"
    "map (\<lambda>t. (tenant_id t, pid t, is_active t)) ts' = map (\<lambda>t. (tenant_id t, pid t, is_active t)) shared_tenants"
    using quantum_end_equal_shares [of demo_power shared_tenants] by blast
  have "map tenant_id ts' = map fst (map (\<lambda>t. (tenant_id t, pid t, is_active t)) ts')" by (simp add: o_def)
  also have "\<dots> = [0, 1, 2, 3]" unfolding r(3) by (simp add: shared_tenants_def upt_rec zero_tenant_def)
  finally show ?thesis using r by (simp add: capacities numeral_eq_Suc)
qed

text \<open>
  C20. One share of zero (or NaN), or a power reading of zero, turns the shares of all the
  tenants into NaN at the end of a quantum without events: nothing guards the division.
\<close>

theorem quantum_end_nan_spreads:
  assumes "\<not> q_has_power_event (current_quantum st)" "length ts = MAX_TENANTS"
    and "q_present_power (current_quantum st) = 0 \<or> (\<exists>t \<in> set ts. is_zero_or_nan (power_proportion t))"
  shows "\<exists>st' ts'. sunneed_quantum_end st ts = Some (Done (0, st', ts')) \<and>
    map power_proportion ts' = replicate MAX_TENANTS NaN"
proof -
  let ?u = "map (\<lambda>t. unscaled_proportion (Zero False) (q_present_power (current_quantum st)) (power_proportion t)) ts"
  have "ts \<noteq> []" using assms(2) by (auto simp: capacities)
  then have "\<exists>t \<in> set ts. q_present_power (current_quantum st) = 0 \<or> is_zero_or_nan (power_proportion t)"
    using assms(3) by (cases ts) auto
  then obtain t where "t \<in> set ts"
    "unscaled_proportion (Zero False) (q_present_power (current_quantum st)) (power_proportion t) = NaN"
    using unscaled_nan by blast
  then have "NaN \<in> set ?u" by force
  from rescale_nan [OF this] show ?thesis
    using assms(2) quantum_end_no_event [OF assms(1,2)] by (simp add: proportions_set)
qed

theorem quantum_end_nan_spreads_witness:
  "\<exists>st' ts'. sunneed_quantum_end demo_power (shared_tenants[2 := zero_tenant]) = Some (Done (0, st', ts')) \<and>
     map power_proportion ts' = [NaN, NaN, NaN, NaN]"
proof -
  have "\<exists>t \<in> set (shared_tenants[2 := zero_tenant]). is_zero_or_nan (power_proportion t)"
    by (auto simp: shared_tenants_def upt_rec zero_tenant_def)
  from quantum_end_nan_spreads [OF _ _ disjI2, OF _ _ this, of demo_power] show ?thesis
    by (simp add: demo_power_def shared_tenants_def capacities numeral_eq_Suc)
qed

section \<open>Properties of the quantum thread\<close>

lemma quantum_begin_ok:
  assumes "power_ok st as" "q_id (current_quantum st) < 2 ^ 31 - 1"
  obtains st' where "sunneed_quantum_begin reading now (Some head) st = Some (Done (0, st'))"
    "power_ok st' [head]" "q_id (current_quantum st') = q_id (current_quantum st) + 1"
    "q_has_power_event (current_quantum st') = q_has_power_event (current_quantum st)"
    "q_present_power (current_quantum st') = sint reading"
  using assms power_ok_free [OF assms(1)]
  by (auto simp: sunneed_quantum_begin_def power_ok_def fresh_head_def Let_def int_of_u32_def)

lemma quantum_loop_step:
  assumes "power_ok st as" "q_id (current_quantum st) < 2 ^ 31 - 1"
    and "env_events e = []" "env_malloc e = Some head"
    and "\<not> q_has_power_event (current_quantum st)" "length ts = MAX_TENANTS"
  obtains st' where
    "\<And>es. quantum_loop (e # es) st ts = quantum_loop es st'
       (set_proportions (rescale (map (\<lambda>t. unscaled_proportion (Zero False) (sint (env_power e)) (power_proportion t)) ts)) ts)"
    "power_ok st' [head]" "q_id (current_quantum st') = q_id (current_quantum st) + 1"
    "\<not> q_has_power_event (current_quantum st')"
proof -
  obtain st1 where st1: "sunneed_quantum_begin (env_power e) (env_now e) (Some head) st = Some (Done (0, st1))"
    "power_ok st1 [head]" "q_id (current_quantum st1) = q_id (current_quantum st) + 1"
    "\<not> q_has_power_event (current_quantum st1)" "q_present_power (current_quantum st1) = sint (env_power e)"
    using quantum_begin_ok [OF assms(1,2), of "env_power e" "env_now e" head] assms(5) by metis
  note end1 = quantum_end_no_event [OF st1(4) assms(6)]
  show ?thesis
    by (rule that [of "st1\<lparr>current_quantum := (current_quantum st1)\<lparr>q_is_active := False\<rparr>\<rparr>"])
      (use assms(3,4) st1 end1 in \<open>simp_all add: power_ok_def\<close>)
qed

lemma rescale_length [simp]: "length (rescale us) = length us"
  by (simp add: rescale_def Let_def)

lemma set_proportions_length: "length ps = length ts \<Longrightarrow> length (set_proportions ps ts) = length ts"
  by (simp add: set_proportions_def)

lemma quantum_loop_nan:
  assumes "\<And>e. e \<in> set es \<Longrightarrow> env_events e = [] \<and> env_malloc e \<noteq> None"
    and "power_ok st as" "q_id (current_quantum st) + int (length es) \<le> 2 ^ 31 - 1"
    and "\<not> q_has_power_event (current_quantum st)" "length ts = MAX_TENANTS"
    and "\<exists>t \<in> set ts. is_zero_or_nan (power_proportion t)"
  shows "\<exists>st' ts'. quantum_loop es st ts = Some (Done (True, st', ts')) \<and>
    q_id (current_quantum st') = q_id (current_quantum st) + int (length es) \<and>
    (es \<noteq> [] \<longrightarrow> map power_proportion ts' = replicate MAX_TENANTS NaN)"
  using assms
proof (induction es arbitrary: st as ts)
  case Nil
  then show ?case by simp
next
  case (Cons e es)
  let ?ps = "rescale (map (\<lambda>t. unscaled_proportion (Zero False) (sint (env_power e)) (power_proportion t)) ts)"
  let ?ts = "set_proportions ?ps ts"
  obtain head where e: "env_events e = []" "env_malloc e = Some head" 
    using Cons.prems(1) [of e] by auto
  have id: "q_id (current_quantum st) < 2 ^ 31 - 1" using Cons.prems(3) by simp
  obtain st' where st': "\<And>es. quantum_loop (e # es) st ts = quantum_loop es st' ?ts" "power_ok st' [head]"
    "q_id (current_quantum st') = q_id (current_quantum st) + 1" "\<not> q_has_power_event (current_quantum st')"
    using quantum_loop_step [OF Cons.prems(2) id e Cons.prems(4,5)] by metis
  obtain t where "t \<in> set ts" "is_zero_or_nan (power_proportion t)" using Cons.prems(6) by blast
  then have "NaN \<in> set (map (\<lambda>t. unscaled_proportion (Zero False) (sint (env_power e)) (power_proportion t)) ts)"
    using unscaled_nan [of "sint (env_power e)" "power_proportion t"] by force
  then have nan: "map power_proportion ?ts = replicate MAX_TENANTS NaN"
    using Cons.prems(5) by (simp add: proportions_set rescale_nan)
  have len: "length ?ts = MAX_TENANTS" using Cons.prems(5) by (simp add: set_proportions_length)
  have "power_proportion (?ts ! 0) = NaN"
    using nan len by (metis nth_map nth_replicate MAX_TENANTS_def zero_less_numeral)
  then have some: "\<exists>t \<in> set ?ts. is_zero_or_nan (power_proportion t)"
    using len by (metis capacities is_zero_or_nan_simps(1) nth_mem zero_less_numeral)
  have "q_id (current_quantum st') + int (length es) \<le> 2 ^ 31 - 1" using Cons.prems(3) st'(3) by simp
  from Cons.IH [OF _ st'(2) this st'(4) len some] Cons.prems(1)
  obtain st2 ts2 where r: "quantum_loop es st' ?ts = Some (Done (True, st2, ts2))"
    "q_id (current_quantum st2) = q_id (current_quantum st') + int (length es)"
    "es \<noteq> [] \<longrightarrow> map power_proportion ts2 = replicate MAX_TENANTS NaN" by (meson list.set_intros(2))
  moreover have "es = [] \<Longrightarrow> ts2 = ?ts" using r(1) by simp
  ultimately have "map power_proportion ts2 = replicate MAX_TENANTS NaN" using nan by blast
  with r(1,2) st'(1,3) show ?case
    by (intro exI [of _ st2] exI [of _ ts2]) (simp del: quantum_loop.simps)
qed

text \<open>
  The quantum thread as the daemon starts it, with the tenants zero-initialised: as long
  as memory is available and no event is recorded it never stops, but from the end of the
  first quantum on every share is NaN, whatever the power readings are.
\<close>

lemma quantum_worker_from_start:
  assumes "\<And>e. e \<in> set es \<Longrightarrow> env_events e = [] \<and> env_malloc e \<noteq> None" "length es < 2 ^ 31" "es \<noteq> []"
  shows "\<exists>st' ts'. sunneed_quantum_worker es power_static (tenants proc_static) = Some (Done (True, st', ts')) \<and>
    q_id (current_quantum st') = int (length es) - 1 \<and> map power_proportion ts' = replicate MAX_TENANTS NaN"
proof -
  have "power_ok (power_static\<lparr>power_usage_evs := None\<rparr>) []" by (simp add: power_ok_def power_static_def)
  then show ?thesis
    using quantum_loop_nan [of es "power_static\<lparr>power_usage_evs := None\<rparr>" "[]" "tenants proc_static"] assms
    by (auto simp: sunneed_quantum_worker_def power_static_def proc_static_def zero_tenant_def capacities)
qed

lemma quantum_worker_from_start_example:
  "\<exists>st' ts'. sunneed_quantum_worker
       [\<lparr>env_power = 500, env_now = (0, 0), env_malloc = Some 16, env_events = []\<rparr>,
        \<lparr>env_power = 500, env_now = (1, 0), env_malloc = Some 16, env_events = []\<rparr>]
       power_static (tenants proc_static) = Some (Done (True, st', ts')) \<and>
     q_id (current_quantum st') = 1 \<and> map power_proportion ts' = [NaN, NaN, NaN, NaN]"
proof -
  let ?es = "[\<lparr>env_power = 500, env_now = (0, 0), env_malloc = Some 16, env_events = []\<rparr>,
        \<lparr>env_power = 500, env_now = (1, 0), env_malloc = Some 16, env_events = []\<rparr>]"
  have "e \<in> set ?es \<Longrightarrow> env_events e = [] \<and> env_malloc e \<noteq> None" for e by auto
  moreover have "length ?es < 2 ^ 31" "?es \<noteq> []" by simp_all
  ultimately have "\<exists>st' ts'. sunneed_quantum_worker ?es power_static (tenants proc_static) = Some (Done (True, st', ts')) \<and>
    q_id (current_quantum st') = int (length ?es) - 1 \<and> map power_proportion ts' = replicate MAX_TENANTS NaN"
    by (rule quantum_worker_from_start)
  moreover have "int (length ?es) - 1 = 1" "replicate MAX_TENANTS NaN = [NaN, NaN, NaN, NaN]"
    by (simp_all add: capacities numeral_eq_Suc)
  ultimately show ?thesis by (simp only:)
qed

end
