(* ===== verification/Sunneed_Ipc.thy ===== *)
theory Sunneed_Ipc
  imports Sunneed_Prelude
begin

text \<open>
  The macros of \<^verbatim>\<open>shared/sunneed_ipc.h\<close> around the calls of the library \<open>nng\<close>. A macro runs a
  call, compares its result, and on an error calls the function that the program has set for
  reporting (\<^verbatim>\<open>_sunneed_nng_error_func\<close>). Client and listener use the same macros with different
  functions: the client's ends the process, the listener's writes to the log.
\<close>

section \<open>The macros\<close>

text \<open>
  The reporting function gets the name of the call and its result. A macro is a statement: it is
  followed by the next statement or returns from the function it stands in.
\<close>

type_synonym error_func = "cstr \<Rightarrow> int \<Rightarrow> unit outcome"

datatype control = Falls_through | Returns int

text \<open>
  \<open>production\<close> is whether \<^verbatim>\<open>SUNNEED_BUILD_TYPE_PRODUCTION\<close> is defined: then the pointer to the
  reporting function is called without a test.
\<close>

definition NNG_TRY_CONTAINER ::
    "bool \<Rightarrow> error_func option \<Rightarrow> cstr \<Rightarrow> int \<Rightarrow> (int \<Rightarrow> bool) \<Rightarrow> control \<Rightarrow> control outcome" where
  "NNG_TRY_CONTAINER production error_func call_name target error_cond on_error =
     (if error_cond target
      then (case error_func of
              None \<Rightarrow> if production then Fault NullDeref else Exited 1
            | Some f \<Rightarrow> obind (f call_name target) (\<lambda>_. Done on_error))
      else Done Falls_through)"

definition SUNNEED_NNG_TRY :: "bool \<Rightarrow> error_func option \<Rightarrow> cstr \<Rightarrow> int \<Rightarrow> (int \<Rightarrow> bool) \<Rightarrow> control outcome" where
  "SUNNEED_NNG_TRY production error_func call_name rv error_cond =
     NNG_TRY_CONTAINER production error_func call_name rv error_cond Falls_through"

definition SUNNEED_NNG_TRY_RET :: "bool \<Rightarrow> error_func option \<Rightarrow> cstr \<Rightarrow> int \<Rightarrow> (int \<Rightarrow> bool) \<Rightarrow> control outcome" where
  "SUNNEED_NNG_TRY_RET production error_func call_name rv error_cond =
     NNG_TRY_CONTAINER production error_func call_name rv error_cond (Returns 1)"

text \<open>The error conditions that the sources pass to the macros.\<close>

abbreviation nonzero :: "int \<Rightarrow> bool" where
  "nonzero rv \<equiv> rv \<noteq> 0"

abbreviation negative :: "int \<Rightarrow> bool" where
  "negative rv \<equiv> rv < 0"

section \<open>What the macros do\<close>

lemmas try_defs = SUNNEED_NNG_TRY_def SUNNEED_NNG_TRY_RET_def NNG_TRY_CONTAINER_def

text \<open>
  When a reporting function is set, the build type makes no difference, so the rest of the
  development leaves it open.
\<close>

lemma try_build_type:
  "SUNNEED_NNG_TRY production (Some f) c rv err = SUNNEED_NNG_TRY False (Some f) c rv err"
  "SUNNEED_NNG_TRY_RET production (Some f) c rv err = SUNNEED_NNG_TRY_RET False (Some f) c rv err"
  by (simp_all add: try_defs)

text \<open>
  An error that is reported before a reporting function is set ends a development build with the
  status 1, and is a call through a null pointer in a production build.
\<close>

lemma try_without_error_func:
  "err rv \<Longrightarrow> SUNNEED_NNG_TRY production None c rv err = (if production then Fault NullDeref else Exited 1)"
  by (simp add: try_defs)

end
