(* ===== verification/Sunneed_Device.thy ===== *)
theory Sunneed_Device
  imports Sunneed_Prelude
begin

text \<open>
  Devices, locked files and their dummy files: \<^verbatim>\<open>src/src/sunneed_device.c\<close>,
  \<^verbatim>\<open>sunneed_device.h\<close>, \<^verbatim>\<open>shared/sunneed_device_type.h\<close> and \<^verbatim>\<open>shared/sunneed_files.h\<close>.

  \<open>sunneed_device_file_locker\<close> finds the device that locks a path; its lemma says that a path
  counts as locked when it is a prefix of a locked path. \<open>sunneed_device_get_dummy_file\<close> is a
  memo table from paths to dummy files; the locale \<open>path_memo\<close> is its contract.
\<close>

section \<open>State\<close>

definition MAX_DEVICES :: nat where
  "MAX_DEVICES = 64"

definition MAX_LOCKED_FILES :: nat where
  "MAX_LOCKED_FILES = 1024"

definition DUMMY_FILE_PATH_LEN :: nat where
  "DUMMY_FILE_PATH_LEN = 128"

declare MAX_DEVICES_def [capacities] MAX_LOCKED_FILES_def [capacities] DUMMY_FILE_PATH_LEN_def [capacities]

definition DEVICE_TYPE_FILE_LOCK :: int where
  "DEVICE_TYPE_FILE_LOCK = 1"

record file_lock =
  fl_len :: u32
  fl_paths :: "cstr list"

datatype cptr = Null | Valid cstr | Dangling

record sunneed_device =
  is_ready :: bool
  handle :: int
  dev_identifier :: cptr
  device_type_kind :: int
  device_type_data :: "file_lock option"

record dummy_entry =
  d_init :: bool
  d_pathname :: cstr
  d_dummypath :: cstr

record device_state =
  devices :: "sunneed_device list"
  dummy_map :: "dummy_entry list"

definition zero_device :: sunneed_device where
  "zero_device = \<lparr>is_ready = False, handle = 0, dev_identifier = Null, device_type_kind = 0,
     device_type_data = None\<rparr>"

definition device_static :: device_state where
  "device_static =
     \<lparr>devices = replicate MAX_DEVICES zero_device,
      dummy_map = replicate MAX_LOCKED_FILES \<lparr>d_init = False, d_pathname = [], d_dummypath = []\<rparr>\<rparr>"

section \<open>Which device locks a path\<close>

definition path_matches :: "cstr \<Rightarrow> file_lock \<Rightarrow> nat \<Rightarrow> bool outcome" where
  "path_matches pathname fl s =
     (if s < length (fl_paths fl)
      then Done (strncmp pathname (fl_paths fl ! s) (length pathname) = 0)
      else Fault OutOfBounds)"

definition device_locks :: "cstr \<Rightarrow> sunneed_device \<Rightarrow> bool outcome" where
  "device_locks pathname dev =
     (if \<not> is_ready dev \<or> device_type_kind dev \<noteq> DEVICE_TYPE_FILE_LOCK then Done False
      else case device_type_data dev of
             None \<Rightarrow> Fault NullDeref
           | Some fl \<Rightarrow>
               obind (scan (path_matches pathname fl) [0..<unat (fl_len fl)])
                 (\<lambda>r. Done (r \<noteq> None)))"

definition sunneed_device_file_locker :: "cstr \<Rightarrow> device_state \<Rightarrow> nat option outcome" where
  "sunneed_device_file_locker pathname st = scan (device_locks pathname) (devices st)"

section \<open>Dummy files\<close>

text \<open>
  The argument \<open>mk\<close> is what \<^verbatim>\<open>mkstemp("locked_XXXXXX")\<close> does if it is called: \<open>None\<close> is the
  return of -1, \<open>Some (fd, name)\<close> a new open file and the name written over the template. The
  field \<open>init\<close> is a \<^verbatim>\<open>bool\<close> and is assigned the descriptor.
\<close>

definition fill_dummy :: "int \<times> cstr \<times> cstr \<Rightarrow> dummy_entry \<Rightarrow> dummy_entry" where
  "fill_dummy v e =
     (case v of (fd, orig_path, name) \<Rightarrow>
        \<lparr>d_init = (fd \<noteq> 0),
         d_pathname = strncpy_buf orig_path DUMMY_FILE_PATH_LEN,
         d_dummypath = strncpy_buf name DUMMY_FILE_PATH_LEN\<rparr>)"

definition dummy_hit :: "cstr \<Rightarrow> dummy_entry \<Rightarrow> bool" where
  "dummy_hit orig_path e \<longleftrightarrow>
     d_init e \<and> strncmp orig_path (d_pathname e) DUMMY_FILE_PATH_LEN = 0"

definition sunneed_device_get_dummy_file ::
    "cstr \<Rightarrow> (int \<times> cstr) option \<Rightarrow> device_state \<Rightarrow> cstr option \<times> device_state" where
  "sunneed_device_get_dummy_file orig_path mk st =
     (case first_index (dummy_hit orig_path) (dummy_map st) of
        Some i \<Rightarrow> (Some (d_dummypath (dummy_map st ! i)), st)
      | None \<Rightarrow>
          (case mk of
             None \<Rightarrow> (None, st)
           | Some (fd, name) \<Rightarrow>
               (case slot_alloc (\<lambda>e. \<not> d_init e) (fill_dummy (fd, orig_path, name)) (dummy_map st) of
                  None \<Rightarrow> (None, st)
                | Some (i, m) \<Rightarrow> (Some (d_dummypath (m ! i)), st\<lparr>dummy_map := m\<rparr>))))"

text \<open>A sequence of calls, each with its own answer of \<open>mkstemp\<close>.\<close>

fun get_dummy_files :: "(cstr \<times> (int \<times> cstr) option) list \<Rightarrow> device_state \<Rightarrow> device_state" where
  "get_dummy_files [] st = st"
| "get_dummy_files ((p, mk) # cs) st =
     get_dummy_files cs (snd (sunneed_device_get_dummy_file p mk st))"

section \<open>Abstraction\<close>

definition device_ok :: "sunneed_device \<Rightarrow> bool" where
  "device_ok dev \<longleftrightarrow>
     (is_ready dev \<longrightarrow> device_type_kind dev = DEVICE_TYPE_FILE_LOCK \<longrightarrow>
        (case device_type_data dev of
           None \<Rightarrow> False | Some fl \<Rightarrow> unat (fl_len fl) = length (fl_paths fl)))"

definition locked_by :: "sunneed_device \<Rightarrow> cstr list" where
  "locked_by dev =
     (if is_ready dev \<and> device_type_kind dev = DEVICE_TYPE_FILE_LOCK
      then (case device_type_data dev of None \<Rightarrow> [] | Some fl \<Rightarrow> fl_paths fl) else [])"

text \<open>The table as a map from the first 128 characters of a path to a dummy file.\<close>

definition dummy_lookup :: "device_state \<Rightarrow> cstr \<Rightarrow> cstr option" where
  "dummy_lookup st p =
     map_option (\<lambda>i. d_dummypath (dummy_map st ! i)) (first_index (dummy_hit p) (dummy_map st))"

section \<open>The contract of the dummy file table\<close>

locale path_memo =
  fixes get :: "cstr \<Rightarrow> 'r \<Rightarrow> 's \<Rightarrow> cstr option \<times> 's"
    and lookup :: "'s \<Rightarrow> cstr \<Rightarrow> cstr option"
    and good :: "'r \<Rightarrow> bool"
  assumes hit: "lookup s p = Some d \<Longrightarrow> get p r s = (Some d, s)"
    and fail: "get p r s = (None, s') \<Longrightarrow> s' = s"
    and miss: "lookup s p = None \<Longrightarrow> good r \<Longrightarrow> get p r s = (Some d, s') \<Longrightarrow> lookup s' p = Some d"
    and keep: "get p r s = (res, s') \<Longrightarrow> good r \<Longrightarrow> lookup s q = Some d \<Longrightarrow> lookup s' q = Some d"
begin

lemma get_stores: "good r \<Longrightarrow> get p r s = (Some d, s') \<Longrightarrow> lookup s' p = Some d"
  using hit miss by (cases "lookup s p") fastforce+

lemma get_again: "good r \<Longrightarrow> get p r s = (Some d, s') \<Longrightarrow> get p r' s' = (Some d, s')"
  using get_stores hit by blast

primrec run :: "(cstr \<times> 'r) list \<Rightarrow> 's \<Rightarrow> 's" where
  "run [] s = s"
| "run (c # cs) s = run cs (snd (get (fst c) (snd c) s))"

lemma run_keeps:
  "\<forall>c \<in> set cs. good (snd c) \<Longrightarrow> lookup s q = Some d \<Longrightarrow> lookup (run cs s) q = Some d"
proof (induction cs arbitrary: s)
  case Nil
  then show ?case by simp
next
  case (Cons c cs)
  have "lookup (snd (get (fst c) (snd c) s)) q = Some d"
    using keep [of "fst c" "snd c" s _ _ q d] Cons.prems by (metis list.set_intros(1) prod.collapse)
  with Cons show ?case by simp
qed

lemma get_after_run:
  assumes "good r" "get p r s = (Some d, s')" "\<forall>c \<in> set cs. good (snd c)"
  shows "get p r' (run cs s') = (Some d, run cs s')"
  using run_keeps [OF assms(3) get_stores [OF assms(1,2)]] hit by blast

end

section \<open>Lemmas on the locker\<close>

lemma path_matches_Done:
  "s < length (fl_paths fl) \<Longrightarrow> path_matches p fl s = Done (prefix p (fl_paths fl ! s))"
  by (simp add: path_matches_def strncmp_length_left)

lemma first_index_upt_iff:
  "first_index Q [0..<n] \<noteq> None \<longleftrightarrow> (\<exists>i < n. Q i)"
  using first_index_None_iff [of Q "[0..<n]"] by auto

lemma device_locks_Done:
  assumes "device_ok dev"
  shows "device_locks p dev = Done (\<exists>q \<in> set (locked_by dev). prefix p q)"
proof (cases "is_ready dev \<and> device_type_kind dev = DEVICE_TYPE_FILE_LOCK")
  case True
  with assms obtain fl where fl: "device_type_data dev = Some fl" "unat (fl_len fl) = length (fl_paths fl)"
    by (auto simp: device_ok_def split: option.splits)
  have "scan (path_matches p fl) [0..<length (fl_paths fl)]
      = Done (first_index (\<lambda>s. prefix p (fl_paths fl ! s)) [0..<length (fl_paths fl)])"
    by (rule scan_Done) (simp add: path_matches_Done)
  moreover have "(first_index (\<lambda>s. prefix p (fl_paths fl ! s)) [0..<length (fl_paths fl)] \<noteq> None)
      \<longleftrightarrow> (\<exists>q \<in> set (fl_paths fl). prefix p q)"
    unfolding first_index_upt_iff by (metis in_set_conv_nth)
  ultimately show ?thesis
    using True fl by (simp add: device_locks_def locked_by_def del: not_None_eq)
next
  case False
  then have "locked_by dev = []" by (simp only: locked_by_def if_False)
  then show ?thesis using False by (simp add: device_locks_def)
qed

lemma file_locker_Done:
  "\<forall>dev \<in> set (devices st). device_ok dev \<Longrightarrow> sunneed_device_file_locker p st =
     Done (first_index (\<lambda>dev. \<exists>q \<in> set (locked_by dev). prefix p q) (devices st))"
  unfolding sunneed_device_file_locker_def by (rule scan_Done) (simp add: device_locks_Done)

text \<open>
  C15. Which device locks a path. With well-formed devices the search returns the first ready
  file-lock device one of whose locked paths has the requested path as a prefix, and NULL
  when there is none; it never faults.
\<close>

theorem file_locker_prefix:
  assumes "\<forall>dev \<in> set (devices st). device_ok dev"
  shows "sunneed_device_file_locker p st =
      Done (first_index (\<lambda>dev. \<exists>q \<in> set (locked_by dev). prefix p q) (devices st))"
  using assms by (rule file_locker_Done)

definition demo_device :: sunneed_device where
  "demo_device = \<lparr>is_ready = True, handle = 0, dev_identifier = Valid ''camera'',
     device_type_kind = 1, device_type_data = Some \<lparr>fl_len = 1, fl_paths = [''/tmp/camera'']\<rparr>\<rparr>"

theorem file_locker_prefix_witness:
  "sunneed_device_file_locker ''/tmp'' \<lparr>devices = [zero_device, demo_device], dummy_map = []\<rparr> = Done (Some 1) \<and>
   sunneed_device_file_locker ''/dev'' \<lparr>devices = [zero_device, demo_device], dummy_map = []\<rparr> = Done None"
proof -
  have "locked_by zero_device = []" "locked_by demo_device = [''/tmp/camera'']"
    by (simp_all add: locked_by_def zero_device_def demo_device_def DEVICE_TYPE_FILE_LOCK_def)
  moreover have "device_ok zero_device" "device_ok demo_device"
    by (simp_all add: device_ok_def zero_device_def demo_device_def)
  ultimately show ?thesis
    using file_locker_prefix [of "\<lparr>devices = [zero_device, demo_device], dummy_map = []\<rparr>"] by simp
qed

section \<open>Lemmas on the dummy files\<close>

interpretation dummy_slots: slot_table "\<lambda>e. \<not> d_init e" fill_dummy "\<lambda>v. fst v \<noteq> 0"
  by unfold_locales (auto simp: fill_dummy_def split: prod.splits)

lemma dummy_hit_key:
  "dummy_hit p e \<longleftrightarrow> d_init e \<and> take DUMMY_FILE_PATH_LEN p = take DUMMY_FILE_PATH_LEN (d_pathname e)"
  by (simp add: dummy_hit_def strncmp_eq_0_iff)

lemma dummy_hit_fill:
  "dummy_hit q (fill_dummy (fd, p, name) e) \<longleftrightarrow>
     fd \<noteq> 0 \<and> take DUMMY_FILE_PATH_LEN q = take DUMMY_FILE_PATH_LEN p"
  by (auto simp: dummy_hit_key fill_dummy_def strncpy_buf_def)

lemma get_dummy_miss:
  assumes "dummy_lookup st p = None" "sunneed_device_get_dummy_file p mk st = (Some d, st')"
  obtains fd name i where "mk = Some (fd, name)" "d = strncpy_buf name DUMMY_FILE_PATH_LEN"
    "i < length (dummy_map st)" "\<not> d_init (dummy_map st ! i)"
    "st' = st\<lparr>dummy_map := (dummy_map st)[i := fill_dummy (fd, p, name) (dummy_map st ! i)]\<rparr>"
proof -
  have none: "first_index (dummy_hit p) (dummy_map st) = None"
    using assms(1) by (simp add: dummy_lookup_def)
  with assms(2) obtain fd name i m where mk: "mk = Some (fd, name)"
    and al: "slot_alloc (\<lambda>e. \<not> d_init e) (fill_dummy (fd, p, name)) (dummy_map st) = Some (i, m)"
    and d: "d = d_dummypath (m ! i)" "st' = st\<lparr>dummy_map := m\<rparr>"
    by (auto simp: sunneed_device_get_dummy_file_def split: option.splits prod.splits)
  from d(1) dummy_slots.alloc_stored [OF al] have "d = strncpy_buf name DUMMY_FILE_PATH_LEN"
    by (simp add: fill_dummy_def)
  with mk d(2) slot_alloc_SomeD [OF al] show ?thesis by (intro that) auto
qed

lemma dummy_lookup_key:
  assumes "take DUMMY_FILE_PATH_LEN p = take DUMMY_FILE_PATH_LEN q"
  shows "dummy_lookup st p = dummy_lookup st q"
proof -
  have "dummy_hit p = dummy_hit q" using assms by (simp add: dummy_hit_key fun_eq_iff)
  then show ?thesis by (simp add: dummy_lookup_def)
qed

text \<open>A call that misses adds one binding and nothing else, unless \<open>mkstemp\<close> returned descriptor 0.\<close>

lemma dummy_lookup_after_miss:
  assumes "dummy_lookup st p = None" "sunneed_device_get_dummy_file p (Some (fd, name)) st = (Some d, st')"
  shows "dummy_lookup st' q =
    (if fd \<noteq> 0 \<and> take DUMMY_FILE_PATH_LEN q = take DUMMY_FILE_PATH_LEN p then Some d else dummy_lookup st q)"
proof -
  from assms obtain i where d: "d = strncpy_buf name DUMMY_FILE_PATH_LEN"
    and i: "i < length (dummy_map st)" "\<not> d_init (dummy_map st ! i)"
    and st': "st' = st\<lparr>dummy_map := (dummy_map st)[i := fill_dummy (fd, p, name) (dummy_map st ! i)]\<rparr>"
    by (auto elim!: get_dummy_miss)
  let ?e = "fill_dummy (fd, p, name) (dummy_map st ! i)"
  have old: "\<not> dummy_hit q (dummy_map st ! i)" using i(2) by (simp add: dummy_hit_def)
  show ?thesis
  proof (cases "dummy_hit q ?e")
    case True
    then have k: "fd \<noteq> 0" "take DUMMY_FILE_PATH_LEN q = take DUMMY_FILE_PATH_LEN p"
      by (auto simp: dummy_hit_fill)
    then have "first_index (dummy_hit q) (dummy_map st) = None"
      using assms(1) dummy_lookup_key [of q p st] by (simp add: dummy_lookup_def)
    then have "first_index (dummy_hit q) (dummy_map st') = Some i"
      using first_index_update_None [OF i(1)] True st' by simp
    then show ?thesis using k i(1) st' d by (simp add: dummy_lookup_def fill_dummy_def)
  next
    case False
    then have same: "first_index (dummy_hit q) (dummy_map st') = first_index (dummy_hit q) (dummy_map st)"
      using first_index_update_same [of i "dummy_map st" "dummy_hit q", OF i(1) old] st' by simp
    have "d_dummypath (dummy_map st' ! j) = d_dummypath (dummy_map st ! j)"
      if "first_index (dummy_hit q) (dummy_map st) = Some j" for j
      using first_index_SomeD [OF that] old st' by (cases "j = i") auto
    then have "dummy_lookup st' q = dummy_lookup st q"
      using same by (auto simp: dummy_lookup_def intro: option.map_cong)
    with False show ?thesis by (auto simp: dummy_hit_fill)
  qed
qed

lemma get_dummy_hit:
  "dummy_lookup st p = Some d \<Longrightarrow> sunneed_device_get_dummy_file p mk st = (Some d, st)"
  by (auto simp: dummy_lookup_def sunneed_device_get_dummy_file_def)

lemma get_dummy_fail: "sunneed_device_get_dummy_file p mk st = (None, st') \<Longrightarrow> st' = st"
  by (auto simp: sunneed_device_get_dummy_file_def split: option.splits prod.splits)

definition good_fd :: "(int \<times> cstr) option \<Rightarrow> bool" where
  "good_fd mk \<longleftrightarrow> (case mk of None \<Rightarrow> True | Some (fd, name) \<Rightarrow> fd \<noteq> 0)"

interpretation dummy_files: path_memo sunneed_device_get_dummy_file dummy_lookup good_fd
proof unfold_locales
  fix s p d r s'
  assume "dummy_lookup s p = None" "good_fd r" "sunneed_device_get_dummy_file p r s = (Some d, s')"
  moreover from this obtain fd name where "r = Some (fd, name)" by (auto elim: get_dummy_miss)
  ultimately show "dummy_lookup s' p = Some d"
    using dummy_lookup_after_miss [of s p fd name d s' p] by (simp add: good_fd_def)
next
  fix s p d r s' q res
  assume get: "sunneed_device_get_dummy_file p r s = (res, s')" and r: "good_fd r" and q: "dummy_lookup s q = Some d"
  show "dummy_lookup s' q = Some d"
  proof (cases res)
    case None
    with get get_dummy_fail q show ?thesis by metis
  next
    case (Some e)
    show ?thesis
    proof (cases "dummy_lookup s p")
      case (Some x)
      with get get_dummy_hit q show ?thesis by (metis prod.inject)
    next
      case None
      with get Some obtain fd name where rr: "r = Some (fd, name)" by (auto elim: get_dummy_miss)
      have "take DUMMY_FILE_PATH_LEN q \<noteq> take DUMMY_FILE_PATH_LEN p"
        using dummy_lookup_key [of q p s] q None by auto
      then show ?thesis
        using dummy_lookup_after_miss [OF None get [unfolded rr Some], of q] q by simp
    qed
  qed
qed (auto simp: get_dummy_hit get_dummy_fail)

lemma get_dummy_files_run: "get_dummy_files cs = dummy_files.run cs"
proof
  fix st show "get_dummy_files cs st = dummy_files.run cs st"
    by (induction cs arbitrary: st) auto
qed

text \<open>
  C10. A locked file keeps its dummy. Once \<open>sunneed_device_get_dummy_file\<close> has returned a
  dummy for a path, every later call for the path returns that dummy and changes nothing,
  whatever calls for whatever paths come in between, as long as \<open>mkstemp\<close> never returns
  descriptor 0.
\<close>

theorem dummy_file_stable:
  assumes "sunneed_device_get_dummy_file p mk st = (Some d, st')"
    and "good_fd mk" "\<forall>c \<in> set cs. good_fd (snd c)"
  shows "sunneed_device_get_dummy_file p mk' (get_dummy_files cs st') = (Some d, get_dummy_files cs st')"
  unfolding get_dummy_files_run by (rule dummy_files.get_after_run [OF assms(2,1,3)])

definition demo_devices :: device_state where
  "demo_devices = \<lparr>devices = [], dummy_map = replicate 2 \<lparr>d_init = False, d_pathname = [], d_dummypath = []\<rparr>\<rparr>"

theorem dummy_file_stable_witness:
  "\<exists>st'. sunneed_device_get_dummy_file ''/tmp/camera'' (Some (5, ''locked_aaaaaa'')) demo_devices
       = (Some ''locked_aaaaaa'', st') \<and>
     sunneed_device_get_dummy_file ''/tmp/camera'' (Some (7, ''locked_cccccc''))
         (get_dummy_files [(''/tmp/stepper'', Some (6, ''locked_bbbbbb''))] st')
       = (Some ''locked_aaaaaa'', get_dummy_files [(''/tmp/stepper'', Some (6, ''locked_bbbbbb''))] st')"
proof -
  obtain st' where "sunneed_device_get_dummy_file ''/tmp/camera'' (Some (5, ''locked_aaaaaa'')) demo_devices
       = (Some ''locked_aaaaaa'', st')"
    by (simp add: sunneed_device_get_dummy_file_def demo_devices_def dummy_hit_def slot_alloc_def
        fill_dummy_def capacities numeral_2_eq_2)
  with dummy_file_stable [OF this, of "[(''/tmp/stepper'', Some (6, ''locked_bbbbbb''))]"] show ?thesis
    by (auto simp: good_fd_def)
qed

text \<open>
  The exception to the previous property: if \<open>mkstemp\<close> returns descriptor 0 (the daemon
  runs with its standard input closed), the entry just written is not marked as used, so the
  next call for the same path creates another dummy file.
\<close>

lemma dummy_file_descriptor_zero:
  assumes "dummy_lookup st p = None" "sunneed_device_get_dummy_file p (Some (0, name)) st = (Some d, st')"
    and "sunneed_device_get_dummy_file p (Some (fd, name2)) st' = (Some d2, st'')"
  shows "d2 = strncpy_buf name2 DUMMY_FILE_PATH_LEN"
proof -
  have "dummy_lookup st' p = None" using dummy_lookup_after_miss [OF assms(1,2)] assms(1) by simp
  with assms(3) show ?thesis by (auto elim: get_dummy_miss)
qed

lemma dummy_file_descriptor_zero_example:
  "\<exists>st' st''. sunneed_device_get_dummy_file ''/tmp/camera'' (Some (0, ''locked_aaaaaa'')) demo_devices
       = (Some ''locked_aaaaaa'', st') \<and>
     sunneed_device_get_dummy_file ''/tmp/camera'' (Some (6, ''locked_bbbbbb'')) st'
       = (Some ''locked_bbbbbb'', st'')"
proof -
  have none: "dummy_lookup demo_devices ''/tmp/camera'' = None"
    by (simp add: dummy_lookup_def demo_devices_def dummy_hit_def numeral_2_eq_2)
  obtain st' where one: "sunneed_device_get_dummy_file ''/tmp/camera'' (Some (0, ''locked_aaaaaa'')) demo_devices
       = (Some ''locked_aaaaaa'', st')"
    and st': "dummy_map st' ! 0 = \<lparr>d_init = False, d_pathname = ''/tmp/camera'', d_dummypath = ''locked_aaaaaa''\<rparr>"
      "length (dummy_map st') = 2"
    by (simp add: sunneed_device_get_dummy_file_def demo_devices_def dummy_hit_def slot_alloc_def
        fill_dummy_def capacities numeral_2_eq_2)
  have "dummy_lookup st' ''/tmp/camera'' = None" using dummy_lookup_after_miss [OF none one] none by simp
  moreover obtain i m where "slot_alloc (\<lambda>e. \<not> d_init e)
      (fill_dummy (6, ''/tmp/camera'', ''locked_bbbbbb'')) (dummy_map st') = Some (i, m)"
  proof -
    have "dummy_map st' ! 0 \<in> set (dummy_map st')" using st'(2) by (intro nth_mem) simp
    moreover have "\<not> d_init (dummy_map st' ! 0)" using st'(1) by simp
    ultimately have "slot_alloc (\<lambda>e. \<not> d_init e)
        (fill_dummy (6, ''/tmp/camera'', ''locked_bbbbbb'')) (dummy_map st') \<noteq> None"
      unfolding slot_alloc_None_iff by blast
    with that show thesis by fastforce
  qed
  ultimately have two: "sunneed_device_get_dummy_file ''/tmp/camera'' (Some (6, ''locked_bbbbbb'')) st'
      = (Some (d_dummypath (m ! i)), st'\<lparr>dummy_map := m\<rparr>)"
    by (simp add: sunneed_device_get_dummy_file_def dummy_lookup_def)
  from dummy_file_descriptor_zero [OF none one two] one two show ?thesis
    by (simp add: capacities)
qed

end
