(* ===== verification/Sunneed_Loader.thy ===== *)
theory Sunneed_Loader
  imports Sunneed_Device Sunneed_Scanf
begin

unbundle bit_operations_syntax

text \<open>
  The device loader, \<^verbatim>\<open>src/src/sunneed_loader.c\<close>, the five device modules of
  \<^verbatim>\<open>src/src/device\<close>, and the runtime tests of the loader with \<^verbatim>\<open>sunneed_test.c\<close>.

  A shared object is what the dynamic linker finds in it: for each of the four symbols of
  \<^verbatim>\<open>shared/sunneed_device_interface.h\<close> its value, or \<open>None\<close> where \<^verbatim>\<open>dlsym\<close> returns NULL
  (for the two functions, the value they return). Where the code leaves through the label
  \<open>end\<close> after the identifier was allocated, the device keeps a dangling identifier. The flag
  \<open>logged\<close> in a result tells whether an error was written to the log.

  The main result is that a successful load leaves well-formed devices, and that the array
  \<open>locked_file_paths\<close> (which is what clients are told) lists exactly the paths these devices lock.
\<close>

section \<open>Modules\<close>

record module =
  m_device_flags :: "u32 option"
  m_device_type_kind :: "int option"
  m_init :: "int option"
  m_get_device_type_data :: "file_lock option option"

definition SUNNEED_DEVICE_FLAG_SILENT_FAIL :: u32 where
  "SUNNEED_DEVICE_FLAG_SILENT_FAIL = 1"

definition DEVICE_IDENTIFIER_LEN :: nat where
  "DEVICE_IDENTIFIER_LEN = 32"

definition DEVICE_PATH_LEN :: nat where
  "DEVICE_PATH_LEN = 64"

definition OBJ_EXTENSION_LEN :: nat where
  "OBJ_EXTENSION_LEN = 3"

declare DEVICE_IDENTIFIER_LEN_def [capacities] DEVICE_PATH_LEN_def [capacities] OBJ_EXTENSION_LEN_def [capacities]

definition OBJ_EXTENSION :: cstr where
  "OBJ_EXTENSION = ''.so''"

definition camera_module :: module where
  "camera_module = \<lparr>m_device_flags = Some 0, m_device_type_kind = Some DEVICE_TYPE_FILE_LOCK,
     m_init = Some 0, m_get_device_type_data = Some (Some \<lparr>fl_len = 1, fl_paths = [''/tmp/camera'']\<rparr>)\<rparr>"

definition stepperMotor_module :: module where
  "stepperMotor_module = \<lparr>m_device_flags = Some 0, m_device_type_kind = Some DEVICE_TYPE_FILE_LOCK,
     m_init = Some 0, m_get_device_type_data = Some (Some \<lparr>fl_len = 1, fl_paths = [''/tmp/stepper'']\<rparr>)\<rparr>"

definition stepper_motor_module :: module where
  "stepper_motor_module = \<lparr>m_device_flags = Some 0, m_device_type_kind = Some DEVICE_TYPE_FILE_LOCK,
     m_init = Some 0, m_get_device_type_data = Some (Some \<lparr>fl_len = 1, fl_paths = [''/dev/stepper'']\<rparr>)\<rparr>"

definition TEST_FILE_LOCK_FILE_PATH :: cstr where
  "TEST_FILE_LOCK_FILE_PATH = ''/tmp/test''"

definition test_file_lock_module :: module where
  "test_file_lock_module = \<lparr>m_device_flags = Some 0, m_device_type_kind = Some DEVICE_TYPE_FILE_LOCK,
     m_init = Some 0,
     m_get_device_type_data = Some (Some \<lparr>fl_len = 1, fl_paths = [TEST_FILE_LOCK_FILE_PATH]\<rparr>)\<rparr>"

definition test_broken_module :: module where
  "test_broken_module = \<lparr>m_device_flags = Some SUNNEED_DEVICE_FLAG_SILENT_FAIL,
     m_device_type_kind = Some DEVICE_TYPE_FILE_LOCK, m_init = Some 0, m_get_device_type_data = None\<rparr>"

section \<open>Loading\<close>

type_synonym locked_paths = "cstr option list"

definition locked_file_paths_static :: locked_paths where
  "locked_file_paths_static = replicate MAX_LOCKED_FILES None"

definition add_locked_file_path :: "cstr \<Rightarrow> locked_paths \<Rightarrow> locked_paths outcome" where
  "add_locked_file_path path lp =
     (case slot_alloc (\<lambda>p. p = None) (\<lambda>_. Some path) lp of
        None \<Rightarrow> Exited 1
      | Some (i, lp') \<Rightarrow> Done lp')"

fun copy_paths :: "nat list \<Rightarrow> cstr list \<Rightarrow> cstr list \<Rightarrow> locked_paths \<Rightarrow> (cstr list \<times> locked_paths) outcome" where
  "copy_paths [] src dst lp = Done (dst, lp)"
| "copy_paths (i # is) src dst lp =
     (if i < length src
      then obind (add_locked_file_path (src ! i) lp) (copy_paths is src (dst @ [src ! i]))
      else Fault OutOfBounds)"

definition assign_device_type_data_field ::
    "sunneed_device \<Rightarrow> file_lock \<Rightarrow> locked_paths \<Rightarrow> (int \<times> sunneed_device \<times> locked_paths) outcome" where
  "assign_device_type_data_field dev data lp =
     (if device_type_kind dev = DEVICE_TYPE_FILE_LOCK
      then obind (copy_paths [0..<unat (fl_len data)] (fl_paths data) [] lp)
        (\<lambda>(paths, lp'). Done (0, dev\<lparr>device_type_data := Some \<lparr>fl_len = fl_len data, fl_paths = paths\<rparr>\<rparr>, lp'))
      else Done (1, dev, lp))"

definition is_object_file :: "cstr \<Rightarrow> bool outcome" where
  "is_object_file path =
     (if length path < OBJ_EXTENSION_LEN then Fault OutOfBounds
      else Done (strncmp (drop (length path - OBJ_EXTENSION_LEN) path) OBJ_EXTENSION (length path) = 0))"

record load_result =
  retval :: int
  logged :: bool
  written :: "sunneed_device option"
  lr_paths :: locked_paths

text \<open>
  \<open>dl\<close> is what \<^verbatim>\<open>dlopen\<close> returns for the path and \<open>alloc\<close> whether the allocation of the
  identifier succeeds. Without the symbol \<open>device_flags\<close> the jump to \<open>end\<close> passes over the
  initialisation of \<open>identifier\<close>, which is then read.
\<close>

definition load_device ::
    "module option \<Rightarrow> cstr \<Rightarrow> int \<Rightarrow> bool \<Rightarrow> locked_paths \<Rightarrow> load_result outcome" where
  "load_device dl device_name hdl alloc lp =
     (case dl of
        None \<Rightarrow> Done \<lparr>retval = 1, logged = True, written = None, lr_paths = lp\<rparr>
      | Some m \<Rightarrow>
     (case m_device_flags m of
        None \<Rightarrow> Fault UninitRead
      | Some flags \<Rightarrow>
     (let silent_fail = (if flags \<noteq> 0 then flags AND SUNNEED_DEVICE_FLAG_SILENT_FAIL \<noteq> 0 else False) in
      if \<not> alloc then Done \<lparr>retval = 1, logged = \<not> silent_fail, written = None, lr_paths = lp\<rparr>
      else
     (case m_device_type_kind m of
        None \<Rightarrow> Done \<lparr>retval = 1, logged = \<not> silent_fail, written = None, lr_paths = lp\<rparr>
      | Some kind \<Rightarrow>
     (let dev = \<lparr>is_ready = False, handle = hdl,
                 dev_identifier = Valid (take (DEVICE_IDENTIFIER_LEN - 1) device_name),
                 device_type_kind = kind, device_type_data = None\<rparr>;
          freed = dev\<lparr>dev_identifier := Dangling\<rparr> in
     (case m_init m of
        None \<Rightarrow> Done \<lparr>retval = 1, logged = \<not> silent_fail, written = Some freed, lr_paths = lp\<rparr>
      | Some init_val \<Rightarrow>
          if init_val \<noteq> 0
          then Done \<lparr>retval = 1, logged = (\<not> silent_fail \<and> init_val > 0), written = Some freed, lr_paths = lp\<rparr>
          else
     (case m_get_device_type_data m of
        None \<Rightarrow> Done \<lparr>retval = 1, logged = \<not> silent_fail, written = Some freed, lr_paths = lp\<rparr>
      | Some None \<Rightarrow> Done \<lparr>retval = 1, logged = \<not> silent_fail, written = Some freed, lr_paths = lp\<rparr>
      | Some (Some data) \<Rightarrow>
          obind (assign_device_type_data_field dev data lp)
            (\<lambda>(res, dev', lp').
               if res \<noteq> 0
               then Done \<lparr>retval = 1, logged = True, written = Some (dev'\<lparr>dev_identifier := Dangling\<rparr>), lr_paths = lp'\<rparr>
               else Done \<lparr>retval = 0, logged = False, written = Some (dev'\<lparr>is_ready := True\<rparr>), lr_paths = lp'\<rparr>))))))))"

text \<open>
  The directory loop. \<open>dlopen p\<close> is the object at path \<open>p\<close>, \<open>alloc n\<close> whether the allocation
  for the \<open>n\<close>-th object succeeds; \<open>target\<close> is the index of the next device. Names that do
  not fit the two 64-byte buffers overrun them.
\<close>

primrec load_entries ::
    "(cstr \<Rightarrow> module option) \<Rightarrow> (nat \<Rightarrow> bool) \<Rightarrow> cstr list \<Rightarrow> nat \<Rightarrow> nat \<Rightarrow>
     sunneed_device list \<Rightarrow> locked_paths \<Rightarrow> (sunneed_device list \<times> locked_paths) outcome" where
  "load_entries dlopen alloc [] device_count target devs lp = Done (devs, lp)"
| "load_entries dlopen alloc (d_name # ns) device_count target devs lp =
     (if length d_name \<le> OBJ_EXTENSION_LEN then load_entries dlopen alloc ns device_count target devs lp
      else if DEVICE_PATH_LEN \<le> length d_name - OBJ_EXTENSION_LEN then Fault OutOfBounds
      else
        let device_name = take (length d_name - OBJ_EXTENSION_LEN) d_name;
            device_path = ''build/device/'' @ take DEVICE_PATH_LEN d_name
        in if DEVICE_PATH_LEN \<le> length device_path then Fault OutOfBounds
           else obind (is_object_file device_path) (\<lambda>obj.
             if \<not> obj then load_entries dlopen alloc ns device_count target devs lp
             else obind (load_device (dlopen device_path) device_name (int device_count) (alloc device_count) lp)
               (\<lambda>r. if written r \<noteq> None \<and> length devs \<le> target then Fault OutOfBounds
                    else let devs' = (case written r of None \<Rightarrow> devs | Some d \<Rightarrow> devs[target := d])
                         in load_entries dlopen alloc ns (Suc device_count)
                              (if retval r \<noteq> 0 then target else Suc target) devs' (lr_paths r))))"

text \<open>
  When the directory cannot be opened, the code goes to its end and closes the NULL that
  stands for it, which is undefined.
\<close>

definition sunneed_load_devices ::
    "(cstr \<Rightarrow> module option) \<Rightarrow> (nat \<Rightarrow> bool) \<Rightarrow> cstr list option \<Rightarrow>
     sunneed_device list \<Rightarrow> locked_paths \<Rightarrow> (int \<times> sunneed_device list \<times> locked_paths) outcome" where
  "sunneed_load_devices dlopen alloc dir target lp =
     (case dir of
        None \<Rightarrow> Fault NullDeref
      | Some entries \<Rightarrow>
          obind (load_entries dlopen alloc entries 0 0 target lp)
            (\<lambda>(devs, lp'). Done (0, devs, lp')))"

section \<open>Runtime tests of the loader\<close>

definition SUNNEED_RUNTIME_TEST_ERROR_DESC_BUFFER_LENGTH :: nat where
  "SUNNEED_RUNTIME_TEST_ERROR_DESC_BUFFER_LENGTH = 1024"

text \<open>The message is the formatted one; \<open>err\<close> is the buffer \<open>sunneed_runtime_test_error\<close>.\<close>

definition set_sunneed_error :: "int \<Rightarrow> cstr \<Rightarrow> cstr \<Rightarrow> (int \<times> cstr) outcome" where
  "set_sunneed_error ret msg err =
     (if err \<noteq> [] then Exited 1
      else Done (ret, take (SUNNEED_RUNTIME_TEST_ERROR_DESC_BUFFER_LENGTH - 1) msg))"

definition TEST_load_device :: "(cstr \<Rightarrow> module option) \<Rightarrow> bool \<Rightarrow> locked_paths \<Rightarrow> cstr \<Rightarrow> (int \<times> cstr) outcome" where
  "TEST_load_device dlopen alloc lp err =
     obind (load_device (dlopen ''build/device/test_file_lock.so'') ''test'' 0 alloc lp)
       (\<lambda>r. if retval r \<noteq> 0 then set_sunneed_error 1 (''`load_device` failed: '' @ dec_int (retval r)) err
        else case written r of
          None \<Rightarrow> Fault UninitRead
        | Some dev \<Rightarrow>
            if handle dev \<noteq> 0 then set_sunneed_error 2 (''invalid handle '' @ dec_int (handle dev)) err
            else (case dev_identifier dev of
                Null \<Rightarrow> Fault NullDeref
              | Dangling \<Rightarrow> Fault UseAfterFree
              | Valid name \<Rightarrow>
                  if name \<noteq> ''test'' then set_sunneed_error 3 (''incorrect identifier '' @ [CHR 0x27] @ name @ [CHR 0x27]) err
                  else (case device_type_data dev of
                      None \<Rightarrow> Fault NullDeref
                    | Some fl \<Rightarrow>
                        if fl_paths fl = [] then Fault OutOfBounds
                        else if hd (fl_paths fl) \<noteq> TEST_FILE_LOCK_FILE_PATH
                        then set_sunneed_error 4 (''wrong file lock path '' @ [CHR 0x27] @ hd (fl_paths fl) @ [CHR 0x27]) err
                        else if fl_len fl \<noteq> 1
                        then set_sunneed_error 5 (''wrong number of locked files '' @ dec_int (int_of_u32 (fl_len fl))) err
                        else Done (0, err))))"

definition TEST_load_broken_device :: "(cstr \<Rightarrow> module option) \<Rightarrow> bool \<Rightarrow> locked_paths \<Rightarrow> cstr \<Rightarrow> (int \<times> cstr) outcome" where
  "TEST_load_broken_device dlopen alloc lp err =
     obind (load_device (dlopen ''build/device/test_broken.so'') ''test'' 0 alloc lp)
       (\<lambda>r. if retval r = 0 then set_sunneed_error 1 (''loading broken device didn'' @ [CHR 0x27] @ ''t fail'') err
            else Done (0, err))"

section \<open>Lemmas on the array of locked paths\<close>

text \<open>The array holds its paths at the front; \<open>lp_of ps\<close> is the array that lists \<open>ps\<close>.\<close>

definition lp_of :: "cstr list \<Rightarrow> locked_paths" where
  "lp_of ps = map Some ps @ replicate (MAX_LOCKED_FILES - length ps) None"

interpretation path_slots: slot_table "\<lambda>p. p = None" "\<lambda>path _. Some path" "\<lambda>path. True"
  by unfold_locales simp

lemma lp_of_Nil: "lp_of [] = locked_file_paths_static"
  by (simp add: lp_of_def locked_file_paths_static_def)

lemma first_index_lp_of:
  "first_index (\<lambda>p. p = None) (lp_of ps) = (if length ps < MAX_LOCKED_FILES then Some (length ps) else None)"
proof -
  have "first_index (\<lambda>p. p = None) (map Some ps) = None" by (auto simp: first_index_None_iff)
  then show ?thesis by (simp add: lp_of_def first_index_append first_index_replicate)
qed

lemma lp_of_snoc:
  assumes "length ps < MAX_LOCKED_FILES"
  shows "(lp_of ps)[length ps := Some p] = lp_of (ps @ [p])"
proof -
  obtain k where k: "MAX_LOCKED_FILES - length ps = Suc k"
    using assms by (metis Suc_diff_Suc)
  then have "MAX_LOCKED_FILES - length (ps @ [p]) = k" by simp
  with k show ?thesis by (simp add: lp_of_def list_update_append)
qed

lemma add_locked_file_path_eq:
  "add_locked_file_path p (lp_of ps) =
     (if length ps < MAX_LOCKED_FILES then Done (lp_of (ps @ [p])) else Exited 1)"
  by (simp add: add_locked_file_path_def slot_alloc_def first_index_lp_of lp_of_snoc)

lemma copy_paths_DoneD:
  assumes "copy_paths is src dst (lp_of ps) = Done (dst', lp')"
  shows "dst' = dst @ map ((!) src) is \<and> lp' = lp_of (ps @ map ((!) src) is) \<and>
    (length ps \<le> MAX_LOCKED_FILES \<longrightarrow> length ps + length is \<le> MAX_LOCKED_FILES)"
  using assms
proof (induction "is" arbitrary: dst ps)
  case Nil
  then show ?case by simp
next
  case (Cons i "is")
  from Cons.prems have i: "length ps < MAX_LOCKED_FILES"
    and rest: "copy_paths is src (dst @ [src ! i]) (lp_of (ps @ [src ! i])) = Done (dst', lp')"
    by (auto simp: add_locked_file_path_eq split: if_splits)
  from Cons.IH [OF rest] i show ?case by simp
qed

lemma copy_paths_Done:
  assumes "\<forall>i \<in> set is. i < length src" "length ps + length is \<le> MAX_LOCKED_FILES"
  shows "copy_paths is src dst (lp_of ps) = Done (dst @ map ((!) src) is, lp_of (ps @ map ((!) src) is))"
  using assms by (induction "is" arbitrary: dst ps) (auto simp: add_locked_file_path_eq)

section \<open>Lemmas on loading one device\<close>

definition loaded :: "sunneed_device \<Rightarrow> cstr list \<Rightarrow> bool" where
  "loaded dev ps \<longleftrightarrow> is_ready dev \<and> device_type_kind dev = DEVICE_TYPE_FILE_LOCK \<and>
     (\<exists>fl. device_type_data dev = Some fl \<and> fl_paths fl = ps \<and> unat (fl_len fl) = length ps)"

lemma loaded_ok: "loaded dev ps \<Longrightarrow> device_ok dev" "loaded dev ps \<Longrightarrow> locked_by dev = ps"
  by (auto simp: loaded_def device_ok_def locked_by_def)

lemma not_ready_ok: "\<not> is_ready dev \<Longrightarrow> device_ok dev" "\<not> is_ready dev \<Longrightarrow> locked_by dev = []"
  by (auto simp: device_ok_def locked_by_def)

lemma assign_DoneD:
  assumes "assign_device_type_data_field dev data (lp_of ps) = Done (res, dev', lp')"
  shows "(res = 1 \<and> dev' = dev \<and> lp' = lp_of ps) \<or>
    (res = 0 \<and> device_type_kind dev = DEVICE_TYPE_FILE_LOCK \<and>
     (let qs = map ((!) (fl_paths data)) [0..<unat (fl_len data)] in
      dev' = dev\<lparr>device_type_data := Some \<lparr>fl_len = fl_len data, fl_paths = qs\<rparr>\<rparr> \<and> lp' = lp_of (ps @ qs) \<and>
      (length ps \<le> MAX_LOCKED_FILES \<longrightarrow> length ps + length qs \<le> MAX_LOCKED_FILES)))"
  using assms copy_paths_DoneD [of "[0..<unat (fl_len data)]" "fl_paths data" "[]" ps]
  by (auto simp: assign_device_type_data_field_def Let_def split: if_splits)

text \<open>A call either fails, leaves the path list alone and no ready device, or loads one device.\<close>

lemma load_device_DoneD:
  assumes "load_device dl name h alloc (lp_of ps) = Done r"
  shows "(retval r = 1 \<and> lr_paths r = lp_of ps \<and> (\<forall>d. written r = Some d \<longrightarrow> \<not> is_ready d)) \<or>
    (retval r = 0 \<and> (\<exists>d qs. written r = Some d \<and> loaded d qs \<and> handle d = h \<and>
       dev_identifier d = Valid (take (DEVICE_IDENTIFIER_LEN - 1) name) \<and> lr_paths r = lp_of (ps @ qs) \<and>
       (length ps \<le> MAX_LOCKED_FILES \<longrightarrow> length ps + length qs \<le> MAX_LOCKED_FILES)))"
  using assms
  by (auto simp: load_device_def Let_def loaded_def split: option.splits if_splits
      dest!: assign_DoneD)

text \<open>
  A module without the symbol \<open>device_flags\<close> makes the loader read an uninitialised
  pointer (and free it): the error path jumps over the declaration of \<open>identifier\<close>.
\<close>

lemma load_device_without_flags_faults:
  assumes "m_device_flags m = None"
  shows "load_device (Some m) name h alloc lp = Fault UninitRead"
  using assms by (simp add: load_device_def)

lemma load_device_without_flags_faults_example:
  "load_device (Some (camera_module\<lparr>m_device_flags := None\<rparr>)) ''camera'' 0 True locked_file_paths_static
     = Fault UninitRead"
  by (rule load_device_without_flags_faults) simp

text \<open>
  What a module needs to be loaded: all four symbols, an \<open>init\<close> that returns 0, type
  data whose declared length its array has, and room in the array of locked paths. Then the
  device is ready under the given handle, its name is cut to 31 characters, it locks the
  module's paths, and these are appended to the list the clients get.
\<close>

lemma load_device_success:
  assumes "m_device_flags m = Some flags" "m_device_type_kind m = Some DEVICE_TYPE_FILE_LOCK"
    and "m_init m = Some 0" "m_get_device_type_data m = Some (Some fl)"
    and "unat (fl_len fl) = length (fl_paths fl)" "length ps + length (fl_paths fl) \<le> MAX_LOCKED_FILES"
  shows "\<exists>d. load_device (Some m) name h True (lp_of ps) =
      Done \<lparr>retval = 0, logged = False, written = Some d, lr_paths = lp_of (ps @ fl_paths fl)\<rparr> \<and>
    is_ready d \<and> handle d = h \<and> dev_identifier d = Valid (take 31 name) \<and> locked_by d = fl_paths fl"
proof -
  have "copy_paths [0..<unat (fl_len fl)] (fl_paths fl) [] (lp_of ps) = Done (fl_paths fl, lp_of (ps @ fl_paths fl))"
    using copy_paths_Done [of "[0..<unat (fl_len fl)]" "fl_paths fl" ps "[]"] assms(5,6) by (simp add: map_nth)
  then show ?thesis
    using assms by (simp add: load_device_def assign_device_type_data_field_def Let_def locked_by_def
        capacities)
qed

lemma load_device_success_example:
  "\<exists>d. load_device (Some camera_module) ''camera'' 3 True (lp_of [''/tmp/test'']) =
      Done \<lparr>retval = 0, logged = False, written = Some d, lr_paths = lp_of [''/tmp/test'', ''/tmp/camera'']\<rparr> \<and>
    is_ready d \<and> handle d = 3 \<and> dev_identifier d = Valid ''camera'' \<and> locked_by d = [''/tmp/camera'']"
  using load_device_success [of camera_module 0 "\<lparr>fl_len = 1, fl_paths = [''/tmp/camera'']\<rparr>"
      "[''/tmp/test'']" "''camera''" 3]
  by (simp add: camera_module_def capacities)

text \<open>
  The runtime tests of the loader pass on the modules they name: the file-lock example
  loads with the expected fields, the broken example fails to load, and neither test touches
  the failure message.
\<close>

lemma runtime_tests_pass:
  assumes "dlopen ''build/device/test_file_lock.so'' = Some test_file_lock_module"
    and "dlopen ''build/device/test_broken.so'' = Some test_broken_module"
  shows "TEST_load_device dlopen True locked_file_paths_static err = Done (0, err) \<and>
    TEST_load_broken_device dlopen True locked_file_paths_static err = Done (0, err)"
proof
  have "locked_file_paths_static = lp_of []" by (simp add: lp_of_Nil)
  moreover have "add_locked_file_path p (lp_of []) = Done (lp_of [p])" for p
    using add_locked_file_path_eq [of p "[]"] by (simp add: capacities)
  ultimately show "TEST_load_device dlopen True locked_file_paths_static err = Done (0, err)"
    using assms(1)
    by (simp add: TEST_load_device_def load_device_def test_file_lock_module_def
        assign_device_type_data_field_def capacities)
  show "TEST_load_broken_device dlopen True locked_file_paths_static err = Done (0, err)"
    using assms(2)
    by (simp add: TEST_load_broken_device_def load_device_def test_broken_module_def Let_def)
qed

definition build_device :: "cstr \<Rightarrow> module option" where
  "build_device p =
     (if p = ''build/device/camera.so'' then Some camera_module
      else if p = ''build/device/stepperMotor.so'' then Some stepperMotor_module
      else if p = ''build/device/stepper_motor.so'' then Some stepper_motor_module
      else if p = ''build/device/test_broken.so'' then Some test_broken_module
      else if p = ''build/device/test_file_lock.so'' then Some test_file_lock_module
      else None)"

lemma runtime_tests_pass_example:
  "TEST_load_device build_device True locked_file_paths_static [] = Done (0, []) \<and>
   TEST_load_broken_device build_device True locked_file_paths_static [] = Done (0, [])"
  by (rule runtime_tests_pass) (simp_all add: build_device_def)

section \<open>Loading the directory\<close>

definition load_inv :: "sunneed_device list \<Rightarrow> nat \<Rightarrow> cstr list \<Rightarrow> bool" where
  "load_inv devs target ps \<longleftrightarrow>
     length devs = MAX_DEVICES \<and> target \<le> MAX_DEVICES \<and> length ps \<le> MAX_LOCKED_FILES \<and>
     (\<forall>i < MAX_DEVICES. device_ok (devs ! i)) \<and>
     (\<forall>i. target \<le> i \<longrightarrow> i < MAX_DEVICES \<longrightarrow> \<not> is_ready (devs ! i)) \<and>
     ps = concat (map locked_by devs)"

lemma concat_locked_update:
  assumes "i < length devs" "\<forall>j. i \<le> j \<longrightarrow> j < length devs \<longrightarrow> locked_by (devs ! j) = []"
  shows "concat (map locked_by (devs[i := d])) = concat (map locked_by devs) @ locked_by d"
proof -
  have split: "devs = take i devs @ devs ! i # drop (Suc i) devs"
    using assms(1) by (simp add: id_take_nth_drop)
  have tail: "concat (map locked_by (drop (Suc i) devs)) = []"
    using assms(2) by (auto simp: in_set_conv_nth)
  have "devs[i := d] = take i devs @ d # drop (Suc i) devs"
    using assms(1) by (simp add: upd_conv_take_nth_drop)
  moreover have "concat (map locked_by devs) = concat (map locked_by (take i devs))"
    by (subst split) (use assms tail in simp)
  ultimately show ?thesis using tail by simp
qed

lemma load_inv_write:
  assumes inv: "load_inv devs target ps" and t: "target < MAX_DEVICES" and "\<not> is_ready d"
  shows "load_inv (devs[target := d]) target ps"
proof -
  have "concat (map locked_by (devs[target := d])) = concat (map locked_by devs) @ locked_by d"
    using inv t by (intro concat_locked_update) (auto simp: load_inv_def not_ready_ok)
  with assms show ?thesis
    by (auto simp: load_inv_def not_ready_ok nth_list_update)
qed

lemma load_inv_loaded:
  assumes inv: "load_inv devs target ps" and t: "target < MAX_DEVICES" and d: "loaded d qs"
    and "length ps + length qs \<le> MAX_LOCKED_FILES"
  shows "load_inv (devs[target := d]) (Suc target) (ps @ qs)"
proof -
  have "concat (map locked_by (devs[target := d])) = concat (map locked_by devs) @ locked_by d"
    using inv t by (intro concat_locked_update) (auto simp: load_inv_def not_ready_ok)
  with assms loaded_ok [OF d] show ?thesis
    by (auto simp: load_inv_def nth_list_update)
qed

lemma load_inv_step:
  assumes "load_inv devs target ps" "load_device dl name h al (lp_of ps) = Done r"
    and "\<not> (written r \<noteq> None \<and> length devs \<le> target)"
  shows "\<exists>ps'. lr_paths r = lp_of ps' \<and>
    load_inv (case written r of None \<Rightarrow> devs | Some d \<Rightarrow> devs[target := d])
      (if retval r \<noteq> 0 then target else Suc target) ps'"
proof -
  have len: "length devs = MAX_DEVICES" "length ps \<le> MAX_LOCKED_FILES"
    using assms(1) by (auto simp: load_inv_def)
  from load_device_DoneD [OF assms(2)] show ?thesis
  proof
    assume "retval r = 1 \<and> lr_paths r = lp_of ps \<and> (\<forall>d. written r = Some d \<longrightarrow> \<not> is_ready d)"
    with assms(1,3) len show ?thesis
      by (intro exI [of _ ps]) (auto intro: load_inv_write split: option.splits)
  next
    assume "retval r = 0 \<and> (\<exists>d qs. written r = Some d \<and> loaded d qs \<and> handle d = h \<and>
       dev_identifier d = Valid (take (DEVICE_IDENTIFIER_LEN - 1) name) \<and> lr_paths r = lp_of (ps @ qs) \<and>
       (length ps \<le> MAX_LOCKED_FILES \<longrightarrow> length ps + length qs \<le> MAX_LOCKED_FILES))"
    with assms(1,3) len show ?thesis by (fastforce intro: load_inv_loaded)
  qed
qed

lemma load_entries_inv:
  assumes "load_inv devs target ps"
    and "load_entries dlopen alloc es n target devs (lp_of ps) = Done (devs', lp')"
  shows "\<exists>target' ps'. load_inv devs' target' ps' \<and> lp' = lp_of ps'"
  using assms
proof (induction es arbitrary: n target devs ps)
  case Nil
  then show ?case by auto
next
  case (Cons e es)
  from Cons.prems(2) consider
      (skip) "load_entries dlopen alloc es n target devs (lp_of ps) = Done (devs', lp')"
    | (load) r name path where "load_device (dlopen path) name (int n) (alloc n) (lp_of ps) = Done r"
        "\<not> (written r \<noteq> None \<and> length devs \<le> target)"
        "load_entries dlopen alloc es (Suc n) (if retval r \<noteq> 0 then target else Suc target)
           (case written r of None \<Rightarrow> devs | Some d \<Rightarrow> devs[target := d]) (lr_paths r) = Done (devs', lp')"
    by (auto simp: Let_def split: if_splits)
  then show ?case
  proof cases
    case skip
    then show ?thesis using Cons.IH Cons.prems(1) by blast
  next
    case load
    from load_inv_step [OF Cons.prems(1) load(1,2)] obtain ps' where
      "lr_paths r = lp_of ps'"
      "load_inv (case written r of None \<Rightarrow> devs | Some d \<Rightarrow> devs[target := d])
        (if retval r \<noteq> 0 then target else Suc target) ps'" by blast
    with Cons.IH load(3) show ?thesis by metis
  qed
qed

lemma load_inv_static: "load_inv (devices device_static) 0 []"
proof -
  have "locked_by zero_device = []" "device_ok zero_device" "\<not> is_ready zero_device"
    by (simp_all add: not_ready_ok zero_device_def)
  then show ?thesis by (simp add: load_inv_def device_static_def)
qed

lemma load_devices_lists:
  assumes "sunneed_load_devices dlopen alloc dir (devices device_static) locked_file_paths_static
      = Done (ret, devs, lp)"
  shows "length devs = MAX_DEVICES \<and> (\<forall>d \<in> set devs. device_ok d) \<and> lp = lp_of (concat (map locked_by devs)) \<and>
    length (concat (map locked_by devs)) \<le> MAX_LOCKED_FILES"
proof (cases dir)
  case None
  with assms show ?thesis by (simp add: sunneed_load_devices_def)
next
  case (Some es)
  with assms have "load_entries dlopen alloc es 0 0 (devices device_static) (lp_of []) = Done (devs, lp)"
    by (auto simp: sunneed_load_devices_def lp_of_Nil)
  from load_entries_inv [OF load_inv_static this] show ?thesis
    by (auto simp: load_inv_def in_set_conv_nth)
qed

text \<open>
  C7. After loading the devices of a directory from the initial state, every device is
  well-formed, and the list of locked paths that is sent to clients is exactly the
  concatenation of the paths that the ready devices lock, in the order of the devices.
\<close>

theorem load_devices_locked_list:
  assumes "sunneed_load_devices dlopen alloc dir (devices device_static) locked_file_paths_static
      = Done (ret, devs, lp)"
  shows "length devs = MAX_DEVICES \<and> (\<forall>d \<in> set devs. device_ok d) \<and> lp = lp_of (concat (map locked_by devs))"
  using load_devices_lists [OF assms] by blast

section \<open>When loading succeeds\<close>

definition module_ok :: "module \<Rightarrow> bool" where
  "module_ok m \<longleftrightarrow> m_device_flags m \<noteq> None \<and>
     (\<forall>fl. m_get_device_type_data m = Some (Some fl) \<longrightarrow> unat (fl_len fl) \<le> length (fl_paths fl))"

definition module_paths :: "module option \<Rightarrow> nat" where
  "module_paths dl =
     (case dl of None \<Rightarrow> 0
      | Some m \<Rightarrow> (case m_get_device_type_data m of Some (Some fl) \<Rightarrow> unat (fl_len fl) | _ \<Rightarrow> 0))"

lemma load_device_returns:
  assumes "\<forall>m. dl = Some m \<longrightarrow> module_ok m" "length ps + module_paths dl \<le> MAX_LOCKED_FILES"
  shows "\<exists>r ps'. load_device dl name h al (lp_of ps) = Done r \<and> lr_paths r = lp_of ps' \<and>
    length ps' \<le> length ps + module_paths dl"
proof -
  have copy: "copy_paths [0..<unat (fl_len fl)] (fl_paths fl) [] (lp_of ps) =
      Done (map ((!) (fl_paths fl)) [0..<unat (fl_len fl)], lp_of (ps @ map ((!) (fl_paths fl)) [0..<unat (fl_len fl)]))"
    if "dl = Some m" "m_get_device_type_data m = Some (Some fl)" for m fl
    using copy_paths_Done [of "[0..<unat (fl_len fl)]" "fl_paths fl" ps "[]"] assms that
    by (fastforce simp: module_ok_def module_paths_def)
  show ?thesis
  proof (cases dl)
    case None
    then show ?thesis by (auto simp: load_device_def)
  next
    case (Some m)
    with assms(1) obtain flags where flags: "m_device_flags m = Some flags" by (auto simp: module_ok_def)
    show ?thesis
    proof (cases "\<exists>fl. m_get_device_type_data m = Some (Some fl)")
      case True
      then obtain fl where fl: "m_get_device_type_data m = Some (Some fl)" by blast
      from Some fl have "module_paths dl = unat (fl_len fl)" by (simp add: module_paths_def)
      with copy [OF Some fl] Some flags fl show ?thesis
        by (auto simp: load_device_def assign_device_type_data_field_def Let_def split: option.splits)
    next
      case False
      with Some flags show ?thesis by (auto simp: load_device_def Let_def split: option.splits)
    qed
  qed
qed

lemma is_object_file_eq:
  assumes "OBJ_EXTENSION_LEN \<le> length path"
  shows "is_object_file path = Done (suffix OBJ_EXTENSION path)"
proof -
  let ?tail = "drop (length path - 3) path"
  have len: "length ?tail = 3" using assms by (simp add: capacities)
  have "strncmp ?tail OBJ_EXTENSION (length path) = 0 \<longleftrightarrow> ?tail = OBJ_EXTENSION"
    using len assms by (simp add: strncmp_eq_0_iff OBJ_EXTENSION_def capacities)
  also have "\<dots> \<longleftrightarrow> suffix OBJ_EXTENSION path"
    using len by (metis OBJ_EXTENSION_def append_eq_append_conv append_take_drop_id length_Cons list.size(3)
        numeral_3_eq_3 suffix_def suffix_drop)
  finally show ?thesis using assms by (simp add: is_object_file_def capacities)
qed

lemma load_entries_returns:
  assumes "\<forall>p m. dlopen p = Some m \<longrightarrow> module_ok m"
    and "\<forall>e \<in> set es. length e \<le> 50" "target + length es \<le> length devs"
    and "length ps + (\<Sum>e\<leftarrow>es. module_paths (dlopen (''build/device/'' @ e))) \<le> MAX_LOCKED_FILES"
  shows "\<exists>devs' lp'. load_entries dlopen alloc es n target devs (lp_of ps) = Done (devs', lp')"
  using assms(2-)
proof (induction es arbitrary: n target devs ps)
  case Nil
  then show ?case by simp
next
  case (Cons e es)
  let ?path = "''build/device/'' @ e"
  have len: "length e \<le> 50" "target < length devs" using Cons.prems by auto
  have skip: "\<exists>devs' lp'. load_entries dlopen alloc es n target devs (lp_of ps) = Done (devs', lp')"
    using Cons.prems by (intro Cons.IH) auto
  have obj: "is_object_file ?path = Done (suffix OBJ_EXTENSION ?path)"
    by (rule is_object_file_eq) (simp add: capacities)
  obtain r ps' where r: "load_device (dlopen ?path) (take (length e - OBJ_EXTENSION_LEN) e) (int n) (alloc n) (lp_of ps) = Done r"
      "lr_paths r = lp_of ps'" "length ps' \<le> length ps + module_paths (dlopen ?path)"
    using load_device_returns [of "dlopen ?path" ps "take (length e - OBJ_EXTENSION_LEN) e" "int n" "alloc n"]
      assms(1) Cons.prems(3) by auto
  let ?devs = "case written r of None \<Rightarrow> devs | Some d \<Rightarrow> devs[target := d]"
  let ?target = "if retval r \<noteq> 0 then target else Suc target"
  have "\<exists>devs' lp'. load_entries dlopen alloc es (Suc n) ?target ?devs (lp_of ps') = Done (devs', lp')"
    using Cons.prems r(3) by (intro Cons.IH) (auto split: option.splits)
  then show ?case
    using skip len obj r(1,2) by (auto simp: Let_def capacities)
qed

lemma load_devices_Done:
  assumes "\<forall>p m. dlopen p = Some m \<longrightarrow> module_ok m"
    and "\<forall>e \<in> set es. length e \<le> 50" "length es \<le> MAX_DEVICES"
    and "(\<Sum>e\<leftarrow>es. module_paths (dlopen (''build/device/'' @ e))) \<le> MAX_LOCKED_FILES"
  shows "\<exists>devs lp. sunneed_load_devices dlopen alloc (Some es) (devices device_static) locked_file_paths_static
      = Done (0, devs, lp)"
proof -
  have "\<exists>devs' lp'. load_entries dlopen alloc es 0 0 (devices device_static) (lp_of []) = Done (devs', lp')"
    using assms by (intro load_entries_returns) (auto simp: device_static_def)
  then show ?thesis by (auto simp: sunneed_load_devices_def lp_of_Nil)
qed

text \<open>
  C8. Loading succeeds. If every module found has its flags and honest type data, the file
  names have at most 50 characters, there are at most 64 entries and the modules lock at most
  1024 paths in all, then loading the directory returns 0; no buffer is overrun and the
  process does not exit.
\<close>

theorem load_devices_returns:
  assumes "\<forall>p m. dlopen p = Some m \<longrightarrow> module_ok m"
    and "\<forall>e \<in> set es. length e \<le> 50" "length es \<le> MAX_DEVICES"
    and "(\<Sum>e\<leftarrow>es. module_paths (dlopen (''build/device/'' @ e))) \<le> MAX_LOCKED_FILES"
  shows "\<exists>devs lp. sunneed_load_devices dlopen alloc (Some es) (devices device_static) locked_file_paths_static
      = Done (0, devs, lp)"
  using assms by (rule load_devices_Done)

definition build_device_dir :: "cstr list" where
  "build_device_dir = [''.'', ''..'', ''camera.so'', ''stepperMotor.so'', ''stepper_motor.so'', ''test_broken.so'', ''test_file_lock.so'']"

lemma build_device_ok: "build_device p = Some m \<Longrightarrow> module_ok m"
  by (auto simp: build_device_def module_ok_def camera_module_def stepperMotor_module_def
      stepper_motor_module_def test_broken_module_def test_file_lock_module_def split: if_splits)

lemma build_device_dir_ok:
  "\<forall>e \<in> set build_device_dir. length e \<le> 50" "length build_device_dir \<le> MAX_DEVICES"
  "(\<Sum>e\<leftarrow>build_device_dir. module_paths (build_device (''build/device/'' @ e))) \<le> MAX_LOCKED_FILES"
  by (simp_all add: build_device_dir_def capacities build_device_def
      module_paths_def camera_module_def stepperMotor_module_def stepper_motor_module_def
      test_broken_module_def test_file_lock_module_def)

theorem load_devices_returns_witness:
  "\<exists>devs lp. sunneed_load_devices build_device (\<lambda>_. True) (Some build_device_dir) (devices device_static)
      locked_file_paths_static = Done (0, devs, lp)"
  by (rule load_devices_returns [OF _ build_device_dir_ok]) (simp add: build_device_ok)

theorem load_devices_locked_list_witness:
  "\<exists>devs lp. sunneed_load_devices build_device (\<lambda>_. True) (Some build_device_dir) (devices device_static)
      locked_file_paths_static = Done (0, devs, lp) \<and>
    length devs = MAX_DEVICES \<and> (\<forall>d \<in> set devs. device_ok d) \<and> lp = lp_of (concat (map locked_by devs))"
proof -
  obtain devs lp where run: "sunneed_load_devices build_device (\<lambda>_. True) (Some build_device_dir)
      (devices device_static) locked_file_paths_static = Done (0, devs, lp)"
    using load_devices_Done [OF _ build_device_dir_ok] build_device_ok by blast
  with load_devices_locked_list [OF run] show ?thesis by blast
qed

text \<open>What the five modules of the repository lock, in the order of the directory.\<close>

definition build_paths :: "cstr list" where
  "build_paths = [''/tmp/camera'', ''/tmp/stepper'', ''/dev/stepper'', ''/tmp/test'']"

lemma build_device_paths:
  "\<exists>devs. sunneed_load_devices build_device (\<lambda>_. True) (Some build_device_dir) (devices device_static)
      locked_file_paths_static = Done (0, devs, lp_of build_paths)"
proof -
  have len: "length (devices device_static) = 64" by (simp add: device_static_def capacities)
  show ?thesis
    unfolding sunneed_load_devices_def build_device_dir_def build_paths_def lp_of_Nil [symmetric]
    by (simp add: is_object_file_def OBJ_EXTENSION_def load_device_def build_device_def camera_module_def stepperMotor_module_def
        stepper_motor_module_def TEST_FILE_LOCK_FILE_PATH_def SUNNEED_DEVICE_FLAG_SILENT_FAIL_def
        test_broken_module_def test_file_lock_module_def assign_device_type_data_field_def
        add_locked_file_path_eq capacities len)
qed

lemma lp_of_inject:
  assumes "lp_of ps = lp_of qs"
  shows "ps = qs"
proof -
  have "takeWhile (\<lambda>p. p \<noteq> None) (map Some xs @ replicate n None) = map Some xs" for xs :: "cstr list" and n
    by (induction xs) (auto simp: takeWhile_replicate)
  with assms have "map Some ps = map Some qs" unfolding lp_of_def by metis
  then show ?thesis by (rule map_injective [OF _ inj_Some])
qed

text \<open>
  A device file whose name has more than 50 characters overruns the 64-byte path buffer:
  loading a directory that starts with such an entry is undefined.
\<close>

lemma long_device_name_faults:
  assumes "50 < length e"
  shows "sunneed_load_devices dlopen alloc (Some (e # es)) devs lp = Fault OutOfBounds"
proof -
  have "DEVICE_PATH_LEN \<le> length (''build/device/'' @ take DEVICE_PATH_LEN e)"
    using assms by (simp add: capacities)
  then show ?thesis
    using assms by (simp add: sunneed_load_devices_def Let_def capacities)
qed

lemma long_device_name_faults_example:
  "sunneed_load_devices build_device (\<lambda>_. True) (Some [replicate 48 (CHR ''x'') @ ''.so'']) (devices device_static)
     locked_file_paths_static = Fault OutOfBounds"
  by (rule long_device_name_faults) simp

end
