(* ===== verification/Sunneed_Listener.thy ===== *)
theory Sunneed_Listener
  imports Sunneed_Ipc Sunneed_Proc Sunneed_Loader
begin

text \<open>
  The request listener of the daemon: \<^verbatim>\<open>src/src/sunneed_listener.c\<close> with the messages of
  \<^verbatim>\<open>protobuf/server.proto\<close> and the macros of \<^verbatim>\<open>shared/sunneed_ipc.h\<close>.

  Parameters stand for what is outside the sources. The record \<open>nng\<close> holds the two things the
  listener takes from the messaging library, \<open>nng_pipe_id\<close> and the value that marks an unused
  pipe, with \<open>nng_ok\<close> for their documented behaviour. The record \<open>env\<close> holds the answers of
  the library and of the system calls while one message is handled. Packing and unpacking of
  messages is the identity: a message is its content, or \<open>None\<close> if it cannot be unpacked.

  \<open>sv_calls\<close> is the trace of the system calls that reach the real files; no code reads it.
\<close>

section \<open>Messages\<close>

datatype request =
    ReqNotSet
  | RegisterClient cstr
  | UnregisterClient
  | OpenFile cstr int int
  | Write cstr "byte list"
  | ReqOther int

datatype response_body =
    RespNotSet
  | RespGeneric
  | RespDevice
  | RespOpenFile cstr
  | RespRegisterClient "cstr list"
  | RespCallWrite int u64

record response =
  resp_status :: int
  resp_body :: response_body

section \<open>Parameters and state\<close>

record nng =
  nng_pipe_id :: "u32 \<Rightarrow> int"
  pipe_initializer :: u32

record env =
  peer_pid :: "u64 option"
  os_open :: "cstr \<Rightarrow> int \<Rightarrow> int \<Rightarrow> int"
  os_mkstemp :: "(int \<times> cstr) option"
  os_write :: "int \<Rightarrow> byte list \<Rightarrow> int \<times> int"
  os_readlink :: "cstr \<Rightarrow> cstr option"
  rv_msg_alloc :: int
  rv_msg_append :: int
  rv_sendmsg :: int

datatype syscall = SysOpen cstr int int int | SysWrite int "byte list"

record fd_entry =
  fde_path :: "cstr option"
  fde_fd :: int

record server_state =
  sv_proc :: proc_state
  sv_dev :: device_state
  sv_locked :: locked_paths
  dummy_path_fd_map :: "fd_entry list"
  sv_calls :: "syscall list"

definition dummy_path_fd_map_static :: "fd_entry list" where
  "dummy_path_fd_map_static = replicate MAX_LOCKED_FILES \<lparr>fde_path = None, fde_fd = 0\<rparr>"

section \<open>Lookups\<close>

definition fd_entry_hit :: "cstr \<Rightarrow> fd_entry \<Rightarrow> bool" where
  "fd_entry_hit path e \<longleftrightarrow>
     (case fde_path e of None \<Rightarrow> False | Some p \<Rightarrow> strncmp p path (length path) = 0)"

definition get_fd_from_dummy_path :: "cstr \<Rightarrow> server_state \<Rightarrow> int" where
  "get_fd_from_dummy_path path st =
     (case first_index (fd_entry_hit path) (dummy_path_fd_map st) of
        Some i \<Rightarrow> fde_fd (dummy_path_fd_map st ! i)
      | None \<Rightarrow> -1)"

definition tenant_of_pipe :: "nng \<Rightarrow> int \<Rightarrow> proc_state \<Rightarrow> nat option" where
  "tenant_of_pipe nng pipe_id st =
     (case first_index (\<lambda>tp. nng_pipe_id nng (tp_pipe tp) = pipe_id) (tenant_pipes st) of
        Some i \<Rightarrow> tp_tenant (tenant_pipes st ! i)
      | None \<Rightarrow> None)"

section \<open>Request handlers\<close>

text \<open>
  When \<open>nng_pipe_get_uint64\<close> fails the macro only reports it, and \<open>pid_int\<close> is read without
  ever having been written.
\<close>

definition register_client :: "env \<Rightarrow> u32 \<Rightarrow> proc_state \<Rightarrow> (nat option \<times> proc_state) outcome" where
  "register_client env pipe st =
     (case peer_pid env of
        None \<Rightarrow> Fault UninitRead
      | Some pid_int \<Rightarrow>
          (case sunneed_tenant_register (int_of_u64 pid_int) st of
             (None, st') \<Rightarrow> Done (None, st')
           | (Some t, st') \<Rightarrow>
               Done (Some t,
                 (case slot_alloc (\<lambda>tp. tp_tenant tp = None) (\<lambda>_. \<lparr>tp_tenant = Some t, tp_pipe = pipe\<rparr>)
                         (tenant_pipes st') of
                    None \<Rightarrow> st'
                  | Some (i, tps) \<Rightarrow> st'\<lparr>tenant_pipes := tps\<rparr>))))"

text \<open>A handler returns the status, the body of the response and the new state.\<close>

type_synonym handled = "(int \<times> response_body \<times> server_state) outcome"

definition serve_register_client :: "env \<Rightarrow> u32 \<Rightarrow> server_state \<Rightarrow> handled" where
  "serve_register_client env pipe st =
     obind (register_client env pipe (sv_proc st)) (\<lambda>(t, pst).
       case t of
         None \<Rightarrow> Done (1, RespRegisterClient [], st\<lparr>sv_proc := pst\<rparr>)
       | Some _ \<Rightarrow>
           (case first_index (\<lambda>p. p = None) (sv_locked st) of
              None \<Rightarrow> Fault OutOfBounds
            | Some locked_paths_len \<Rightarrow>
                Done (0, RespRegisterClient (map the (take locked_paths_len (sv_locked st))),
                  st\<lparr>sv_proc := pst\<rparr>)))"

definition serve_unregister_client :: "nng \<Rightarrow> u32 \<Rightarrow> nat \<Rightarrow> server_state \<Rightarrow> handled" where
  "serve_unregister_client nng pipe tenant st =
     (case first_index (\<lambda>tp. tp_pipe tp = pipe) (tenant_pipes (sv_proc st)) of
        None \<Rightarrow> Done (1, RespNotSet, st)
      | Some i \<Rightarrow>
          let pst = (sv_proc st)\<lparr>tenant_pipes :=
                (tenant_pipes (sv_proc st))[i := empty_pipe (pipe_initializer nng)]\<rparr>
          in (case sunneed_tenant_unregister (Some tenant) pst of (ret, pst') \<Rightarrow>
                if ret \<noteq> 0 then Done (1, RespNotSet, st\<lparr>sv_proc := pst'\<rparr>)
                else Done (0, RespGeneric, st\<lparr>sv_proc := pst'\<rparr>)))"

definition log_call :: "syscall \<Rightarrow> server_state \<Rightarrow> server_state" where
  "log_call c st = st\<lparr>sv_calls := sv_calls st @ [c]\<rparr>"

definition serve_open_file :: "env \<Rightarrow> cstr \<Rightarrow> int \<Rightarrow> int \<Rightarrow> server_state \<Rightarrow> handled" where
  "serve_open_file env path flags mode st =
     obind (sunneed_device_file_locker path (sv_dev st)) (\<lambda>locker.
       case locker of
         None \<Rightarrow> Done (1, RespOpenFile [], st)
       | Some _ \<Rightarrow>
           let real_fd = os_open env path flags mode;
               st1 = log_call (SysOpen path flags mode real_fd) st
           in if real_fd = -1 then Done (1, RespOpenFile [], st1)
              else (case sunneed_device_get_dummy_file path (os_mkstemp env) (sv_dev st) of
                (dummypath, dst) \<Rightarrow>
                  let st2 = st1\<lparr>sv_dev := dst\<rparr>
                  in (case first_index (\<lambda>e. fde_path e = None) (dummy_path_fd_map st) of
                        None \<Rightarrow> Done (1, RespOpenFile [], st2)
                      | Some i \<Rightarrow>
                          (case dummypath of
                             None \<Rightarrow> Fault NullDeref
                           | Some d \<Rightarrow>
                               Done (0, RespOpenFile d,
                                 st2\<lparr>dummy_path_fd_map := (dummy_path_fd_map st)
                                       [i := \<lparr>fde_path = Some d, fde_fd = real_fd\<rparr>]\<rparr>)))))"

text \<open>
  The block under \<^verbatim>\<open>LOG_PWR\<close>, which is always compiled: \<^verbatim>\<open>log.h\<close> defines a macro of that name. The
  name of the file is read into a buffer of 1024 zero bytes and then used as a string; a
  name that fills the buffer has no NUL behind it.
\<close>

definition real_path_of_fd :: "env \<Rightarrow> int \<Rightarrow> cstr outcome" where
  "real_path_of_fd env fd =
     (case os_readlink env (''/proc/self/fd/'' @ dec_int fd) of
        None \<Rightarrow> Done []
      | Some real_path \<Rightarrow> if 1024 \<le> length real_path then Fault OutOfBounds else Done real_path)"

definition serve_write :: "env \<Rightarrow> cstr \<Rightarrow> byte list \<Rightarrow> server_state \<Rightarrow> handled" where
  "serve_write env dummy_path data st =
     (let fd = get_fd_from_dummy_path dummy_path st;
          st' = log_call (SysWrite fd data) st
      in obind (real_path_of_fd env fd) (\<lambda>real_path.
           case os_write env fd data of (bytes_written, errno) \<Rightarrow>
             if bytes_written < 0
             then Done (1, RespCallWrite errno (of_int bytes_written), st')
             else Done (0, RespCallWrite 0 (of_int bytes_written), st')))"

section \<open>The listener\<close>

text \<open>The switch on the type of the request, and the guards in front of it.\<close>

fun is_register :: "request \<Rightarrow> bool" where
  "is_register (RegisterClient name) = True"
| "is_register req = False"

fun dispatch :: "nng \<Rightarrow> env \<Rightarrow> u32 \<Rightarrow> nat option \<Rightarrow> request \<Rightarrow> server_state \<Rightarrow> handled" where
  "dispatch nng env pipe tenant ReqNotSet st = Done (-1, RespNotSet, st)"
| "dispatch nng env pipe tenant (RegisterClient name) st = serve_register_client env pipe st"
| "dispatch nng env pipe tenant UnregisterClient st =
     (case tenant of None \<Rightarrow> Fault NullDeref | Some t \<Rightarrow> serve_unregister_client nng pipe t st)"
| "dispatch nng env pipe tenant (OpenFile path flags mode) st = serve_open_file env path flags mode st"
| "dispatch nng env pipe tenant (Write dummy_path data) st = serve_write env dummy_path data st"
| "dispatch nng env pipe tenant (ReqOther k) st = Done (-1, RespNotSet, st)"

text \<open>A request for which the listener goes to \<open>end\<close> gets no response at all.\<close>

definition handle_request ::
    "nng \<Rightarrow> env \<Rightarrow> u32 \<Rightarrow> request option \<Rightarrow> server_state \<Rightarrow> (response option \<times> server_state) outcome" where
  "handle_request nng env pipe request st =
     (case request of
        None \<Rightarrow> Done (None, st)
      | Some req \<Rightarrow>
          let tenant = tenant_of_pipe nng (int_of_u32 pipe) (sv_proc st)
          in if tenant = None \<and> \<not> is_register req then Done (None, st)
             else obind (dispatch nng env pipe tenant req st)
                    (\<lambda>(ret, body, st'). Done (Some \<lparr>resp_status = ret, resp_body = body\<rparr>, st')))"

text \<open>
  What the peer gets: nothing, a message without content (the append failed, and the message
  is sent all the same), or the response. After a failed \<open>nng_msg_alloc\<close> the message pointer
  was never written.
\<close>

datatype reply = NoReply | EmptyReply | Reply response

definition send_response :: "env \<Rightarrow> response \<Rightarrow> reply outcome" where
  "send_response env resp =
     (if rv_msg_alloc env \<noteq> 0 then Fault UninitRead
      else if rv_sendmsg env \<noteq> 0 then Done NoReply
      else if rv_msg_append env \<noteq> 0 then Done EmptyReply
      else Done (Reply resp))"

definition serve_message ::
    "nng \<Rightarrow> env \<Rightarrow> u32 \<Rightarrow> request option \<Rightarrow> server_state \<Rightarrow> (reply \<times> server_state) outcome" where
  "serve_message nng env pipe request st =
     obind (handle_request nng env pipe request st) (\<lambda>(resp, st').
       case resp of
         None \<Rightarrow> Done (NoReply, st')
       | Some r \<Rightarrow> obind (send_response env r) (\<lambda>reply. Done (reply, st')))"

text \<open>
  The loop over what \<open>nng_recvmsg\<close> returns: an error ends it with 1. The result holds the
  return value, \<open>None\<close> while the listener waits for the next message.
\<close>

datatype received = RecvError | Received env u32 "request option"

primrec listen_loop ::
    "nng \<Rightarrow> received list \<Rightarrow> server_state \<Rightarrow> (reply list \<times> int option \<times> server_state) outcome" where
  "listen_loop nng [] st = Done ([], None, st)"
| "listen_loop nng (r # rs) st =
     (case r of
        RecvError \<Rightarrow> Done ([], Some 1, st)
      | Received env pipe request \<Rightarrow>
          obind (serve_message nng env pipe request st) (\<lambda>(reply, st').
            obind (listen_loop nng rs st') (\<lambda>(replies, ret, st'').
              Done (reply # replies, ret, st''))))"

definition init_tenant_pipes :: "nng \<Rightarrow> proc_state \<Rightarrow> proc_state" where
  "init_tenant_pipes nng st =
     st\<lparr>tenant_pipes := map (\<lambda>i. if i < MAX_TENANTS then empty_pipe (pipe_initializer nng)
                                 else tenant_pipes st ! i) [0..<length (tenant_pipes st)]\<rparr>"

text \<open>The reporting function of the listener writes to the log and returns.\<close>

definition report_nng_error :: error_func where
  "report_nng_error func rv = Done ()"

definition sunneed_listen ::
    "nng \<Rightarrow> int \<Rightarrow> int \<Rightarrow> received list \<Rightarrow> server_state \<Rightarrow> (reply list \<times> int option \<times> server_state) outcome" where
  "sunneed_listen nng rv_rep0_open rv_listen rs st =
     (let st1 = st\<lparr>sv_proc := init_tenant_pipes nng (sv_proc st)\<rparr>
      in obind (SUNNEED_NNG_TRY_RET False (Some report_nng_error) ''nng_rep0_open'' rv_rep0_open nonzero) (\<lambda>c1.
           case c1 of
             Returns ret \<Rightarrow> Done ([], Some ret, st1)
           | Falls_through \<Rightarrow>
               obind (SUNNEED_NNG_TRY_RET False (Some report_nng_error) ''nng_listen'' rv_listen negative) (\<lambda>c2.
                 case c2 of
                   Returns ret \<Rightarrow> Done ([], Some ret, st1)
                 | Falls_through \<Rightarrow> listen_loop nng rs st1)))"

lemma sunneed_listen_eq:
  "sunneed_listen nng rv_rep0_open rv_listen rs st =
     (let st1 = st\<lparr>sv_proc := init_tenant_pipes nng (sv_proc st)\<rparr>
      in if rv_rep0_open \<noteq> 0 \<or> rv_listen < 0 then Done ([], Some 1, st1) else listen_loop nng rs st1)"
  by (simp add: sunneed_listen_def try_defs report_nng_error_def Let_def)

section \<open>The abstract view: who is registered\<close>

text \<open>
  The documented behaviour of \<open>nng_pipe_id\<close>: the identifier of a valid pipe, which is
  positive, and -1 for every other value; \<open>NNG_PIPE_INITIALIZER\<close> is not a valid pipe.
\<close>

definition nng_ok :: "nng \<Rightarrow> bool" where
  "nng_ok nng \<longleftrightarrow>
     (\<forall>p. nng_pipe_id nng p = -1 \<or> nng_pipe_id nng p = int_of_u32 p \<and> 0 < int_of_u32 p) \<and>
     nng_pipe_id nng (pipe_initializer nng) = -1"

definition live_pipe :: "nng \<Rightarrow> u32 \<Rightarrow> bool" where
  "live_pipe nng p \<longleftrightarrow> 0 < nng_pipe_id nng p"

definition pipes_ok :: "nng \<Rightarrow> proc_state \<Rightarrow> bool" where
  "pipes_ok nng st \<longleftrightarrow>
     (\<forall>i < SUNNEED_MAX_IPC_CLIENTS.
        if tp_tenant (tenant_pipes st ! i) = None then nng_pipe_id nng (tp_pipe (tenant_pipes st ! i)) = -1
        else live_pipe nng (tp_pipe (tenant_pipes st ! i)))"

definition server_ok :: "nng \<Rightarrow> server_state \<Rightarrow> bool" where
  "server_ok nng st \<longleftrightarrow>
     registry_ok (sv_proc st) \<and> pipes_ok nng (sv_proc st) \<and>
     (\<forall>dev \<in> set (devices (sv_dev st)). device_ok dev) \<and>
     length (dummy_path_fd_map st) = MAX_LOCKED_FILES"

text \<open>The registered clients: pairs of a pipe and its tenant.\<close>

definition sessions :: "proc_state \<Rightarrow> (u32 \<times> nat) set" where
  "sessions st = {(tp_pipe (tenant_pipes st ! i), t) | i t.
     i < SUNNEED_MAX_IPC_CLIENTS \<and> tp_tenant (tenant_pipes st ! i) = Some t}"

text \<open>
  What the listener promises about them: a transition per request, labelled with the pipe, the
  request and the status of the response, \<open>None\<close> where no response is sent.
\<close>

inductive session_step ::
    "u32 \<Rightarrow> request option \<Rightarrow> int option \<Rightarrow> (u32 \<times> nat) set \<Rightarrow> (u32 \<times> nat) set \<Rightarrow> bool" where
  register: "t < MAX_TENANTS \<Longrightarrow> t \<notin> snd ` S \<Longrightarrow> session_step p (Some (RegisterClient n)) (Some 0) S (insert (p, t) S)"
| register_full: "snd ` S = {..<MAX_TENANTS} \<Longrightarrow> session_step p (Some (RegisterClient n)) (Some 1) S S"
| unregister: "(p, t) \<in> S \<Longrightarrow> session_step p (Some UnregisterClient) (Some 0) S (S - {(p, t)})"
| serve: "p \<in> fst ` S \<Longrightarrow> \<forall>n. req \<noteq> RegisterClient n \<Longrightarrow> req \<noteq> UnregisterClient \<Longrightarrow>
    session_step p (Some req) (Some ret) S S"
| stranger: "p \<notin> fst ` S \<Longrightarrow> \<forall>n. req \<noteq> RegisterClient n \<Longrightarrow> session_step p (Some req) None S S"
| garbage: "session_step p None None S S"

inductive_cases session_stepE: "session_step p req r S S'"

section \<open>The contract of a server that refines a specification\<close>

text \<open>
  \<open>step\<close> handles one message and may fault; \<open>ok\<close> delimits the messages, \<open>inv\<close> the states. The
  lemmas carry invariant and simulation over any sequence of messages.
\<close>

locale refining_server =
  fixes step :: "'m \<Rightarrow> 's \<Rightarrow> ('r \<times> 's) outcome"
    and ok :: "'m \<Rightarrow> bool"
    and inv :: "'s \<Rightarrow> bool"
    and abs :: "'s \<Rightarrow> 'a"
    and spec :: "'m \<Rightarrow> 'r \<Rightarrow> 'a \<Rightarrow> 'a \<Rightarrow> bool"
  assumes step_inv: "inv s \<Longrightarrow> ok m \<Longrightarrow> step m s = Done (r, s') \<Longrightarrow> inv s'"
    and step_sim: "inv s \<Longrightarrow> ok m \<Longrightarrow> step m s = Done (r, s') \<Longrightarrow> spec m r (abs s) (abs s')"
begin

primrec run :: "'m list \<Rightarrow> 's \<Rightarrow> ('r list \<times> 's) outcome" where
  "run [] s = Done ([], s)"
| "run (m # ms) s = obind (step m s) (\<lambda>(r, s'). obind (run ms s') (\<lambda>(rs, s''). Done (r # rs, s'')))"

primrec spec_run :: "('m \<times> 'r) list \<Rightarrow> 'a \<Rightarrow> 'a \<Rightarrow> bool" where
  "spec_run [] a a' \<longleftrightarrow> a' = a"
| "spec_run (mr # mrs) a a' \<longleftrightarrow> (\<exists>b. spec (fst mr) (snd mr) a b \<and> spec_run mrs b a')"

lemma run_refines:
  assumes "inv s" "\<forall>m \<in> set ms. ok m" "run ms s = Done (rs, s')"
  shows "inv s' \<and> length rs = length ms \<and> spec_run (zip ms rs) (abs s) (abs s')"
  using assms
proof (induction ms arbitrary: s rs)
  case Nil
  then show ?case by simp
next
  case (Cons m ms)
  from Cons.prems(3) obtain r s1 rs1 where
    one: "step m s = Done (r, s1)" and rest: "run ms s1 = Done (rs1, s')" and rs: "rs = r # rs1"
    by (auto split: prod.splits)
  have inv1: "inv s1" using step_inv [OF Cons.prems(1) _ one] Cons.prems(2) by simp
  have spec1: "spec m r (abs s) (abs s1)" using step_sim [OF Cons.prems(1) _ one] Cons.prems(2) by simp
  from Cons.IH [OF inv1 _ rest] Cons.prems(2) spec1 rs show ?case by auto
qed

end

section \<open>Lemmas on the pipe table\<close>

lemma int_of_u32_inj [simp]: "int_of_u32 p = int_of_u32 q \<longleftrightarrow> p = q"
  unfolding int_of_u32_def by (metis uint_sint word_uint_eq_iff)

lemma live_pipeD: "nng_ok nng \<Longrightarrow> live_pipe nng p \<Longrightarrow> nng_pipe_id nng p = int_of_u32 p \<and> 0 < int_of_u32 p"
  unfolding nng_ok_def live_pipe_def by (metis less_minus_one_simps(1) order_less_asym)

lemma pipe_match:
  "nng_ok nng \<Longrightarrow> live_pipe nng p \<Longrightarrow> nng_pipe_id nng q = int_of_u32 p \<longleftrightarrow> q = p"
  using live_pipeD [of nng p] unfolding nng_ok_def
  by (metis int_of_u32_inj less_minus_one_simps(1) order_less_asym)

text \<open>The two lookups of a live pipe, by identifier and by value, agree.\<close>

lemma tenant_of_pipe_eq:
  assumes "nng_ok nng" "live_pipe nng p"
  shows "tenant_of_pipe nng (int_of_u32 p) st =
    (case first_index (\<lambda>tp. tp_pipe tp = p) (tenant_pipes st) of
       Some i \<Rightarrow> tp_tenant (tenant_pipes st ! i) | None \<Rightarrow> None)"
  by (simp add: tenant_of_pipe_def pipe_match [OF assms])

lemma tenant_of_pipe_SomeD:
  assumes "nng_ok nng" "live_pipe nng p" "registry_ok st" "tenant_of_pipe nng (int_of_u32 p) st = Some t"
  obtains i where "first_index (\<lambda>tp. tp_pipe tp = p) (tenant_pipes st) = Some i"
    "i < SUNNEED_MAX_IPC_CLIENTS" "tp_pipe (tenant_pipes st ! i) = p" "tp_tenant (tenant_pipes st ! i) = Some t"
  using assms(4) registry_okD(2) [OF assms(3)] first_index_SomeD that
  by (fastforce simp: tenant_of_pipe_eq [OF assms(1,2)] split: option.splits)

lemma mem_sessions:
  "(q, u) \<in> sessions st \<longleftrightarrow> (\<exists>j < SUNNEED_MAX_IPC_CLIENTS.
      tp_tenant (tenant_pipes st ! j) = Some u \<and> tp_pipe (tenant_pipes st ! j) = q)"
  unfolding sessions_def by blast

lemma mem_fst_sessions:
  "q \<in> fst ` sessions st \<longleftrightarrow> (\<exists>j < SUNNEED_MAX_IPC_CLIENTS.
      tp_tenant (tenant_pipes st ! j) \<noteq> None \<and> tp_pipe (tenant_pipes st ! j) = q)"
proof -
  have "q \<in> fst ` sessions st \<longleftrightarrow> (\<exists>u. (q, u) \<in> sessions st)" by force
  then show ?thesis unfolding mem_sessions by blast
qed

text \<open>Under the invariants a pipe has a tenant exactly when it is registered.\<close>

lemma tenant_of_pipe_sessions:
  assumes "nng_ok nng" "live_pipe nng p" "registry_ok st" "pipes_ok nng st"
  shows "tenant_of_pipe nng (int_of_u32 p) st = None \<longleftrightarrow> p \<notin> fst ` sessions st"
proof
  assume none: "tenant_of_pipe nng (int_of_u32 p) st = None"
  show "p \<notin> fst ` sessions st"
  proof
    assume "p \<in> fst ` sessions st"
    then obtain i t where i: "i < SUNNEED_MAX_IPC_CLIENTS" "tp_pipe (tenant_pipes st ! i) = p"
      "tp_tenant (tenant_pipes st ! i) = Some t" unfolding mem_fst_sessions by blast
    then obtain k where k: "first_index (\<lambda>tp. tp_pipe tp = p) (tenant_pipes st) = Some k"
      using first_index_ex [of i "tenant_pipes st" "\<lambda>tp. tp_pipe tp = p"] registry_okD(2) [OF assms(3)]
      by metis
    then have "tp_tenant (tenant_pipes st ! k) = None" "k < SUNNEED_MAX_IPC_CLIENTS"
      "tp_pipe (tenant_pipes st ! k) = p"
      using none first_index_SomeD [OF k] registry_okD(2) [OF assms(3)]
      by (simp_all add: tenant_of_pipe_eq [OF assms(1,2)])
    then have "nng_pipe_id nng p = -1" using assms(4) by (auto simp: pipes_ok_def)
    then show False using assms(2) by (simp add: live_pipe_def)
  qed
next
  assume "p \<notin> fst ` sessions st"
  then have no: "tp_tenant (tenant_pipes st ! i) = None"
    if "i < SUNNEED_MAX_IPC_CLIENTS" "tp_pipe (tenant_pipes st ! i) = p" for i
    using that unfolding mem_fst_sessions by blast
  show "tenant_of_pipe nng (int_of_u32 p) st = None"
  proof (rule ccontr)
    assume "tenant_of_pipe nng (int_of_u32 p) st \<noteq> None"
    then obtain t where "tenant_of_pipe nng (int_of_u32 p) st = Some t" by blast
    with tenant_of_pipe_SomeD [OF assms(1-3)] no show False by (metis option.distinct(1))
  qed
qed

lemma tenants_of_sessions:
  assumes "registry_ok st"
  shows "snd ` sessions st = active_set st"
proof -
  note D = registry_okD [OF assms]
  have snd: "t \<in> snd ` sessions st \<longleftrightarrow> (\<exists>j < SUNNEED_MAX_IPC_CLIENTS. tp_tenant (tenant_pipes st ! j) = Some t)" for t
  proof -
    have "t \<in> snd ` sessions st \<longleftrightarrow> (\<exists>q. (q, t) \<in> sessions st)" by force
    then show ?thesis unfolding mem_sessions by blast
  qed
  have "t \<in> snd ` sessions st \<longleftrightarrow> t \<in> active_set st" for t
    unfolding snd active_set_def mem_Collect_eq D(1) using D(3,5) by blast
  then show ?thesis by blast
qed

lemma sessions_attach:
  assumes "registry_ok st" "i < SUNNEED_MAX_IPC_CLIENTS" "tp_tenant (tenant_pipes st ! i) = None"
  shows "sessions (attach i t p proc st) = insert (p, t) (sessions st)"
proof -
  have len: "length (tenant_pipes st) = SUNNEED_MAX_IPC_CLIENTS" using registry_okD(2) [OF assms(1)] .
  have e: "tp_tenant (tenant_pipes (attach i t p proc st) ! j) = Some u \<and>
      tp_pipe (tenant_pipes (attach i t p proc st) ! j) = q \<longleftrightarrow>
      j = i \<and> u = t \<and> q = p \<or> tp_tenant (tenant_pipes st ! j) = Some u \<and> tp_pipe (tenant_pipes st ! j) = q"
    for j u q
    using assms(2,3) len by (cases "j = i") (auto simp: attach_def)
  have "(q, u) \<in> sessions (attach i t p proc st) \<longleftrightarrow> (q, u) \<in> insert (p, t) (sessions st)" for q u
    unfolding mem_sessions insert_iff prod.inject e using assms(2) by blast
  then show ?thesis by (auto simp: set_eq_iff)
qed

lemma sessions_release:
  assumes "registry_ok st" "i < SUNNEED_MAX_IPC_CLIENTS" "tp_tenant (tenant_pipes st ! i) = Some t"
  shows "sessions (release nng_init i t st) = sessions st - {(tp_pipe (tenant_pipes st ! i), t)}"
proof -
  note D = registry_okD [OF assms(1)]
  have e: "tp_tenant (tenant_pipes (release nng_init i t st) ! j) = Some u \<and>
      tp_pipe (tenant_pipes (release nng_init i t st) ! j) = q \<longleftrightarrow>
      j \<noteq> i \<and> tp_tenant (tenant_pipes st ! j) = Some u \<and> tp_pipe (tenant_pipes st ! j) = q" for j u q
    using assms(2) D(2) by (cases "j = i") (auto simp: release_def empty_pipe_def)
  have uniq: "j = i" if "j < SUNNEED_MAX_IPC_CLIENTS" "tp_tenant (tenant_pipes st ! j) = Some t" for j
    using D(4) [OF that(1) assms(2) that(2) assms(3)] .
  have "(q, u) \<in> sessions (release nng_init i t st) \<longleftrightarrow>
      (q, u) \<in> sessions st - {(tp_pipe (tenant_pipes st ! i), t)}" for q u
    unfolding mem_sessions e Diff_iff singleton_iff prod.inject using uniq assms(3) by (metis option.inject)
  then show ?thesis by (auto simp: set_eq_iff)
qed

section \<open>Lemmas on the handlers\<close>

interpretation pipe_slots: slot_table "\<lambda>tp. tp_tenant tp = None"
  "\<lambda>v _. \<lparr>tp_tenant = Some (fst v), tp_pipe = snd v\<rparr>" "\<lambda>v. True"
  by unfold_locales simp

lemma register_client_full:
  assumes "sunneed_tenant_register (int_of_u64 pid_int) st = (None, st')" "peer_pid env = Some pid_int"
  shows "register_client env pipe st = Done (None, st)"
  using assms register_NoneD(1) [OF assms(1)] by (simp add: register_client_def)

lemma register_client_attach:
  assumes "registry_ok st" "peer_pid env = Some pid_int"
    and "sunneed_tenant_register (int_of_u64 pid_int) st = (Some t, st')"
  obtains i where "register_client env pipe st = Done (Some t, attach i t pipe (int_of_u64 pid_int) st)"
    "i < SUNNEED_MAX_IPC_CLIENTS" "tp_tenant (tenant_pipes st ! i) = None"
    "t < MAX_TENANTS" "\<not> is_active (tenants st ! t)"
proof -
  note R = register_SomeD [OF assms(3)]
  have tps: "tenant_pipes st' = tenant_pipes st" using R(3) by simp
  obtain i ys where al: "slot_alloc (\<lambda>tp. tp_tenant tp = None) (\<lambda>_. \<lparr>tp_tenant = Some t, tp_pipe = pipe\<rparr>)
      (tenant_pipes st) = Some (i, ys)"
    using pipe_slots.alloc_succeeds [OF pipe_table_has_room [OF assms(1)], of "(t, pipe)"] by auto
  note A = slot_alloc_SomeD [OF al]
  have "register_client env pipe st = Done (Some t, attach i t pipe (int_of_u64 pid_int) st)"
    using assms(2,3) al tps A(4) R(3) by (simp add: register_client_def attach_def)
  then show ?thesis
    using that A(1,2) R(1,2) registry_okD(1,2) [OF assms(1)] by auto
qed

text \<open>The two outcomes of a registration, over the sessions.\<close>

lemma register_client_cases:
  assumes "registry_ok st" "peer_pid env = Some pid_int"
  obtains (full) "register_client env pipe st = Done (None, st)" "snd ` sessions st = {..<MAX_TENANTS}"
  | (fresh) i t where "register_client env pipe st = Done (Some t, attach i t pipe (int_of_u64 pid_int) st)"
      "i < SUNNEED_MAX_IPC_CLIENTS" "tp_tenant (tenant_pipes st ! i) = None" "t < MAX_TENANTS"
      "\<not> is_active (tenants st ! t)" "t \<notin> snd ` sessions st" "card (snd ` sessions st) < MAX_TENANTS"
proof (cases "sunneed_tenant_register (int_of_u64 pid_int) st")
  case (Pair r pst)
  note T = registry_ok_tenants_ok [OF assms(1)] and S = tenants_of_sessions [OF assms(1)]
  show ?thesis
  proof (cases r)
    case None
    with Pair have reg: "sunneed_tenant_register (int_of_u64 pid_int) st = (None, pst)" by simp
    from register_client_full [OF reg assms(2)] proc_registry.register_None [OF T reg] S
    show ?thesis by (intro full) simp_all
  next
    case (Some t)
    with Pair have reg: "sunneed_tenant_register (int_of_u64 pid_int) st = (Some t, pst)" by simp
    obtain i where i: "register_client env pipe st = Done (Some t, attach i t pipe (int_of_u64 pid_int) st)"
      "i < SUNNEED_MAX_IPC_CLIENTS" "tp_tenant (tenant_pipes st ! i) = None"
      "t < MAX_TENANTS" "\<not> is_active (tenants st ! t)"
      using register_client_attach [OF assms reg] by metis
    have "card (snd ` sessions st) < MAX_TENANTS"
      using proc_registry.register_succeeds_iff [OF T, of "int_of_u64 pid_int"] reg S by simp
    moreover have "t \<notin> snd ` sessions st" using S i(5) by (simp add: active_set_def)
    ultimately show ?thesis using i by (intro fresh [of t i])
  qed
qed

lemma attach_pipes_ok:
  assumes "registry_ok st" "pipes_ok nng st" "live_pipe nng p" "i < SUNNEED_MAX_IPC_CLIENTS"
  shows "pipes_ok nng (attach i t p proc st)"
  using assms(2-4) registry_okD(2) [OF assms(1)]
  by (auto simp: pipes_ok_def attach_def nth_list_update)

lemma release_pipes_ok:
  assumes "registry_ok st" "pipes_ok nng st" "nng_ok nng" "i < SUNNEED_MAX_IPC_CLIENTS"
  shows "pipes_ok nng (release (pipe_initializer nng) i t st)"
  using assms(2-4) registry_okD(2) [OF assms(1)]
  by (auto simp: pipes_ok_def release_def empty_pipe_def nng_ok_def nth_list_update)

lemma log_call_simps [simp]:
  "sv_proc (log_call c st) = sv_proc st" "sv_dev (log_call c st) = sv_dev st"
  "sv_locked (log_call c st) = sv_locked st" "dummy_path_fd_map (log_call c st) = dummy_path_fd_map st"
  "sv_calls (log_call c st) = sv_calls st @ [c]"
  by (simp_all add: log_call_def)

lemma get_dummy_devices: "devices (snd (sunneed_device_get_dummy_file p mk st)) = devices st"
  by (simp add: sunneed_device_get_dummy_file_def split: option.split prod.split)

lemma get_dummy_length:
  "length (dummy_map (snd (sunneed_device_get_dummy_file p mk st))) = length (dummy_map st)"
  by (auto simp: sunneed_device_get_dummy_file_def slot_alloc_def split: option.split prod.split)

lemma server_okD:
  assumes "server_ok nng st"
  shows "registry_ok (sv_proc st)" "pipes_ok nng (sv_proc st)"
    "\<forall>dev \<in> set (devices (sv_dev st)). device_ok dev" "length (dummy_path_fd_map st) = MAX_LOCKED_FILES"
  using assms by (auto simp: server_ok_def)

lemma serve_register_step:
  assumes ok: "nng_ok nng" "live_pipe nng pipe" "server_ok nng st"
    and run: "serve_register_client env pipe st = Done (ret, body, st')"
  shows "server_ok nng st' \<and>
    session_step pipe (Some (RegisterClient n)) (Some ret) (sessions (sv_proc st)) (sessions (sv_proc st'))"
proof -
  note S = server_okD [OF ok(3)]
  obtain pid_int where pid: "peer_pid env = Some pid_int"
    using run by (cases "peer_pid env") (auto simp: serve_register_client_def register_client_def)
  from S(1) pid show ?thesis
  proof (cases rule: register_client_cases [where pipe = pipe])
    case full
    then have "ret = 1" "st' = st" using run by (auto simp: serve_register_client_def)
    with full(2) ok(3) show ?thesis by (auto intro: session_step.register_full)
  next
    case (fresh i t)
    then have "ret = 0" and st': "st' = st\<lparr>sv_proc := attach i t pipe (int_of_u64 pid_int) (sv_proc st)\<rparr>"
      using run by (auto simp: serve_register_client_def split: option.splits)
    moreover have "server_ok nng st'"
      using S st' attach_registry_ok [OF S(1) fresh(2-5)] attach_pipes_ok [OF S(1,2) ok(2) fresh(2)]
      by (simp add: server_ok_def)
    ultimately show ?thesis
      using fresh(4,6) session_step.register sessions_attach [OF S(1) fresh(2,3)] by simp
  qed
qed

lemma serve_unregister_eq:
  assumes "nng_ok nng" "live_pipe nng pipe" "registry_ok (sv_proc st)"
    and "tenant_of_pipe nng (int_of_u32 pipe) (sv_proc st) = Some t"
  obtains i where "serve_unregister_client nng pipe t st =
      Done (0, RespGeneric, st\<lparr>sv_proc := release (pipe_initializer nng) i t (sv_proc st)\<rparr>)"
    "i < SUNNEED_MAX_IPC_CLIENTS" "tp_pipe (tenant_pipes (sv_proc st) ! i) = pipe"
    "tp_tenant (tenant_pipes (sv_proc st) ! i) = Some t"
proof -
  obtain i where i: "first_index (\<lambda>tp. tp_pipe tp = pipe) (tenant_pipes (sv_proc st)) = Some i"
    "i < SUNNEED_MAX_IPC_CLIENTS" "tp_pipe (tenant_pipes (sv_proc st) ! i) = pipe"
    "tp_tenant (tenant_pipes (sv_proc st) ! i) = Some t"
    using tenant_of_pipe_SomeD [OF assms] by metis
  have "is_active (tenants (sv_proc st) ! t)" using registry_okD(3) [OF assms(3) i(2,4)] by simp
  from unregister_release [OF this] that i show ?thesis by (simp add: serve_unregister_client_def)
qed

lemma serve_open_frame:
  assumes "serve_open_file env path flags mode st = Done (ret, body, st')"
  shows "sv_proc st' = sv_proc st" "sv_locked st' = sv_locked st" "devices (sv_dev st') = devices (sv_dev st)"
    "length (dummy_path_fd_map st') = length (dummy_path_fd_map st)"
    "length (dummy_map (sv_dev st')) = length (dummy_map (sv_dev st))"
  using assms get_dummy_devices [of path "os_mkstemp env" "sv_dev st"]
    get_dummy_length [of path "os_mkstemp env" "sv_dev st"]
  by (auto simp: serve_open_file_def Let_def split: option.splits if_splits prod.splits)

lemma serve_write_frame:
  assumes "serve_write env path data st = Done (ret, body, st')"
  shows "sv_proc st' = sv_proc st" "sv_locked st' = sv_locked st" "sv_dev st' = sv_dev st"
    "dummy_path_fd_map st' = dummy_path_fd_map st"
  using assms by (auto simp: serve_write_def Let_def split: if_splits prod.splits)

lemma server_ok_frame:
  assumes "server_ok nng st" "sv_proc st' = sv_proc st" "devices (sv_dev st') = devices (sv_dev st)"
    "length (dummy_path_fd_map st') = length (dummy_path_fd_map st)"
  shows "server_ok nng st'"
  using assms by (simp add: server_ok_def)

lemma handle_request_cases:
  assumes "nng_ok nng" "live_pipe nng pipe" "server_ok nng st"
    and "handle_request nng env pipe request st = Done (resp, st')"
  obtains (garbage) "request = None" "resp = None" "st' = st"
  | (stranger) req where "request = Some req" "\<forall>n. req \<noteq> RegisterClient n" "resp = None" "st' = st"
      "tenant_of_pipe nng (int_of_u32 pipe) (sv_proc st) = None"
  | (register) n ret body where "request = Some (RegisterClient n)"
      "resp = Some \<lparr>resp_status = ret, resp_body = body\<rparr>" "serve_register_client env pipe st = Done (ret, body, st')"
  | (unregister) t where "request = Some UnregisterClient" "resp = Some \<lparr>resp_status = 0, resp_body = RespGeneric\<rparr>"
      "tenant_of_pipe nng (int_of_u32 pipe) (sv_proc st) = Some t"
      "serve_unregister_client nng pipe t st = Done (0, RespGeneric, st')"
  | (served) req r t where "request = Some req" "\<forall>n. req \<noteq> RegisterClient n" "req \<noteq> UnregisterClient"
      "resp = Some r" "tenant_of_pipe nng (int_of_u32 pipe) (sv_proc st) = Some t"
      "sv_proc st' = sv_proc st" "sv_locked st' = sv_locked st" "devices (sv_dev st') = devices (sv_dev st)"
      "length (dummy_path_fd_map st') = length (dummy_path_fd_map st)"
proof (cases request)
  case None
  with assms(4) show ?thesis by (intro garbage) (simp_all add: handle_request_def)
next
  case (Some req)
  note reg = server_okD(1) [OF assms(3)]
  let ?t = "tenant_of_pipe nng (int_of_u32 pipe) (sv_proc st)"
  have nr: "is_register req \<longleftrightarrow> (\<exists>n. req = RegisterClient n)" by (cases req) auto
  show ?thesis
  proof (cases "?t = None \<and> \<not> is_register req")
    case True
    with Some assms(4) nr show ?thesis
      by (intro stranger [of req]) (simp_all add: handle_request_def)
  next
    case False
    with Some assms(4) obtain ret body where d: "dispatch nng env pipe ?t req st = Done (ret, body, st')"
      and resp: "resp = Some \<lparr>resp_status = ret, resp_body = body\<rparr>"
      unfolding handle_request_def Let_def by auto
    show ?thesis
    proof (cases req)
      case (RegisterClient n)
      with Some d resp show ?thesis by (intro register [of n ret body]) simp_all
    next
      case UnregisterClient
      with False obtain t where t: "?t = Some t" by auto
      obtain i where "serve_unregister_client nng pipe t st =
          Done (0, RespGeneric, st\<lparr>sv_proc := release (pipe_initializer nng) i t (sv_proc st)\<rparr>)"
        using serve_unregister_eq [OF assms(1,2) reg t] by metis
      with UnregisterClient Some t d resp show ?thesis by (intro unregister [of t]) simp_all
    qed (use Some False d resp serve_open_frame [of env _ _ _ st ret body st']
          serve_write_frame [of env _ _ st ret body st'] in \<open>auto intro!: served\<close>)
  qed
qed

text \<open>One message: the invariant is kept, and the sessions change as the specification says.\<close>

lemma handle_request_refines:
  assumes "nng_ok nng" "live_pipe nng pipe" "server_ok nng st"
    and "handle_request nng env pipe request st = Done (resp, st')"
  shows "server_ok nng st' \<and>
    session_step pipe request (map_option resp_status resp) (sessions (sv_proc st)) (sessions (sv_proc st'))"
  using assms
proof (cases rule: handle_request_cases)
  case garbage
  then show ?thesis using assms(3) by (simp add: session_step.garbage)
next
  case (stranger req)
  have "pipe \<notin> fst ` sessions (sv_proc st)"
    using tenant_of_pipe_sessions [OF assms(1,2) server_okD(1,2) [OF assms(3)]] stranger(5) by simp
  with stranger assms(3) show ?thesis by (simp add: session_step.stranger)
next
  case (register n ret body)
  with serve_register_step [OF assms(1-3), of env ret body st' n] show ?thesis by simp
next
  case (unregister t)
  note S = server_okD [OF assms(3)]
  obtain i where i: "serve_unregister_client nng pipe t st =
      Done (0, RespGeneric, st\<lparr>sv_proc := release (pipe_initializer nng) i t (sv_proc st)\<rparr>)"
    "i < SUNNEED_MAX_IPC_CLIENTS" "tp_pipe (tenant_pipes (sv_proc st) ! i) = pipe"
    "tp_tenant (tenant_pipes (sv_proc st) ! i) = Some t"
    using serve_unregister_eq [OF assms(1,2) S(1) unregister(3)] by metis
  then have st': "st' = st\<lparr>sv_proc := release (pipe_initializer nng) i t (sv_proc st)\<rparr>"
    using unregister(4) by simp
  then have "server_ok nng st'"
    using S release_registry_ok [OF S(1) i(2,4)] release_pipes_ok [OF S(1,2) assms(1) i(2)]
    by (simp add: server_ok_def)
  moreover have "(pipe, t) \<in> sessions (sv_proc st)" unfolding mem_sessions using i(2-4) by blast
  ultimately show ?thesis
    using unregister st' sessions_release [OF S(1) i(2,4)] i(3) by (simp add: session_step.unregister)
next
  case (served req r t)
  have "pipe \<in> fst ` sessions (sv_proc st)"
    using tenant_of_pipe_sessions [OF assms(1,2) server_okD(1,2) [OF assms(3)]] served(5) by auto
  then have "session_step pipe (Some req) (Some (resp_status r)) (sessions (sv_proc st)) (sessions (sv_proc st))"
    using served(2,3) by (intro session_step.serve) auto
  moreover have "server_ok nng st'" using assms(3) served(6,8,9) by (rule server_ok_frame)
  ultimately show ?thesis using served by simp
qed

section \<open>The listener refines the session specification\<close>

type_synonym message = "env \<times> u32 \<times> request option"

definition msg_step :: "nng \<Rightarrow> message \<Rightarrow> server_state \<Rightarrow> (response option \<times> server_state) outcome" where
  "msg_step nng m st = handle_request nng (fst m) (fst (snd m)) (snd (snd m)) st"

definition msg_spec :: "message \<Rightarrow> response option \<Rightarrow> (u32 \<times> nat) set \<Rightarrow> (u32 \<times> nat) set \<Rightarrow> bool" where
  "msg_spec m r = session_step (fst (snd m)) (snd (snd m)) (map_option resp_status r)"

text \<open>
  The library is a parameter, so the contract is discharged for any \<open>nng\<close> with the documented
  behaviour: the invariant carries \<open>nng_ok\<close> along.
\<close>

interpretation listener: refining_server "msg_step nng" "\<lambda>m. live_pipe nng (fst (snd m))"
  "\<lambda>st. nng_ok nng \<and> server_ok nng st" "\<lambda>st. sessions (sv_proc st)" msg_spec for nng
  by unfold_locales (auto simp: msg_step_def msg_spec_def dest: handle_request_refines)

text \<open>A run of the specification over the messages and what was answered to each.\<close>

primrec session_run :: "(message \<times> response option) list \<Rightarrow> (u32 \<times> nat) set \<Rightarrow> (u32 \<times> nat) set \<Rightarrow> bool" where
  "session_run [] S S' \<longleftrightarrow> S' = S"
| "session_run (mr # mrs) S S' \<longleftrightarrow>
     (\<exists>T. session_step (fst (snd (fst mr))) (snd (snd (fst mr))) (map_option resp_status (snd mr)) S T \<and>
          session_run mrs T S')"

lemma spec_run_session_run: "listener.spec_run mrs S S' = session_run mrs S S'"
  by (induction mrs arbitrary: S) (simp_all add: msg_spec_def)

text \<open>What the specification guarantees by itself: no tenant is shared, and there are at most four.\<close>

definition sessions_ok :: "(u32 \<times> nat) set \<Rightarrow> bool" where
  "sessions_ok S \<longleftrightarrow> inj_on snd S \<and> snd ` S \<subseteq> {..<MAX_TENANTS}"

lemma session_step_ok: "session_step p req r S S' \<Longrightarrow> sessions_ok S \<Longrightarrow> sessions_ok S'"
  by (erule session_stepE) (auto simp: sessions_ok_def inj_on_def image_iff)

lemma session_run_ok: "session_run mrs S S' \<Longrightarrow> sessions_ok S \<Longrightarrow> sessions_ok S'"
  by (induction mrs arbitrary: S) (auto dest: session_step_ok)

lemma sessions_ok_card: "sessions_ok S \<Longrightarrow> finite S \<and> card S \<le> MAX_TENANTS"
  unfolding sessions_ok_def
  by (metis card_image card_lessThan card_mono finite_imageD finite_lessThan finite_subset)

text \<open>The requests of a list of messages, handled one after the other.\<close>

primrec handle_requests ::
    "nng \<Rightarrow> message list \<Rightarrow> server_state \<Rightarrow> (response option list \<times> server_state) outcome" where
  "handle_requests nng [] st = Done ([], st)"
| "handle_requests nng (m # ms) st =
     obind (handle_request nng (fst m) (fst (snd m)) (snd (snd m)) st) (\<lambda>(r, st').
       obind (handle_requests nng ms st') (\<lambda>(rs, st''). Done (r # rs, st'')))"

lemma handle_requests_run: "listener.run nng ms st = handle_requests nng ms st"
  by (induction ms arbitrary: st) (simp_all add: msg_step_def)

fun messages :: "received list \<Rightarrow> message list" where
  "messages (Received env pipe request # rs) = (env, pipe, request) # messages rs"
| "messages rs = []"

fun received_pipe_live :: "nng \<Rightarrow> received \<Rightarrow> bool" where
  "received_pipe_live nng (Received env pipe request) = live_pipe nng pipe"
| "received_pipe_live nng RecvError = True"

lemma messages_live:
  "\<forall>r \<in> set rs. received_pipe_live nng r \<Longrightarrow> \<forall>m \<in> set (messages rs). live_pipe nng (fst (snd m))"
  by (induction rs rule: messages.induct) auto

text \<open>
  What the sender of a message gets when the handling of its request has ended with \<open>resp\<close>:
  nothing if there is no response or it cannot be sent, a message without content if the
  response cannot be appended, and otherwise the response.
\<close>

definition delivered :: "message \<Rightarrow> response option \<Rightarrow> reply \<Rightarrow> bool" where
  "delivered m resp reply \<longleftrightarrow>
     reply = (case resp of
         None \<Rightarrow> NoReply
       | Some r \<Rightarrow> if rv_sendmsg (fst m) \<noteq> 0 then NoReply
           else if rv_msg_append (fst m) \<noteq> 0 then EmptyReply else Reply r)"

lemma serve_message_delivered:
  assumes "serve_message nng env pipe request st = Done (rp, st')"
  obtains resp where "handle_request nng env pipe request st = Done (resp, st')" "delivered (env, pipe, request) resp rp"
proof -
  obtain resp st1 where h: "handle_request nng env pipe request st = Done (resp, st1)"
    using assms by (auto simp: serve_message_def)
  with assms have "st1 = st'" "delivered (env, pipe, request) resp rp"
    by (auto simp: serve_message_def send_response_def delivered_def split: option.splits if_splits)
  with h that show ?thesis by blast
qed

lemma listen_loop_run:
  assumes "listen_loop nng rs st = Done (replies, ret, st')"
  shows "\<exists>resps. handle_requests nng (messages rs) st = Done (resps, st') \<and>
    list_all2 (\<lambda>mr. delivered (fst mr) (snd mr)) (zip (messages rs) resps) replies \<and>
    ret = (if RecvError \<in> set rs then Some 1 else None)"
  using assms
proof (induction rs arbitrary: st replies)
  case Nil
  then show ?case by simp
next
  case (Cons r rs)
  show ?case
  proof (cases r)
    case RecvError
    with Cons.prems show ?thesis by simp
  next
    case (Received env pipe request)
    with Cons.prems obtain rp st1 rps where
      m: "serve_message nng env pipe request st = Done (rp, st1)" and
      rest: "listen_loop nng rs st1 = Done (rps, ret, st')" by auto
    from m obtain resp where "handle_request nng env pipe request st = Done (resp, st1)"
      and "delivered (env, pipe, request) resp rp" by (rule serve_message_delivered)
    moreover have "replies = rp # rps" using Cons.prems Received m rest by simp
    ultimately show ?thesis using Cons.IH [OF rest] Received by auto
  qed
qed

lemma init_tenant_pipes_ok:
  assumes "nng_ok nng" "registry_ok st" "active_set st = {}" "pipes_ok nng st"
  shows "registry_ok (init_tenant_pipes nng st)" "pipes_ok nng (init_tenant_pipes nng st)"
    "sessions (init_tenant_pipes nng st) = {}"
proof -
  note D = registry_okD [OF assms(2)] and free = inactive_registry_free [OF assms(2,3)]
  have none: "tp_tenant (tenant_pipes (init_tenant_pipes nng st) ! i) = None" if "i < SUNNEED_MAX_IPC_CLIENTS" for i
    using that D(2) free by (simp add: init_tenant_pipes_def empty_pipe_def)
  have "\<not> is_active (tenants st ! t)" if "t < MAX_TENANTS" for t
    using that D(1) assms(3) by (auto simp: active_set_def)
  then show "registry_ok (init_tenant_pipes nng st)"
    using none D(1,2) by (simp add: registry_ok_def) (simp add: init_tenant_pipes_def)
  show "pipes_ok nng (init_tenant_pipes nng st)"
    using assms(1,4) none D(2) free unfolding pipes_ok_def
    by (simp add: init_tenant_pipes_def empty_pipe_def nng_ok_def)
  show "sessions (init_tenant_pipes nng st) = {}" using none by (auto simp: sessions_def)
qed

text \<open>The state in which the daemon enters the listener.\<close>

definition listener_start :: "nng \<Rightarrow> server_state \<Rightarrow> bool" where
  "listener_start nng st \<longleftrightarrow> server_ok nng st \<and> active_set (sv_proc st) = {}"

section \<open>Properties of the listener\<close>

text \<open>
  C2. The listener implements the session specification. Whatever messages arrive on valid
  pipes, in whatever order and from however many clients, as long as it runs without a fault:
  every message is handled and answered in its turn (the sender gets the response of the
  handler, unless there is none or the library cannot append or send it), and the registered
  clients evolve from none by the transitions of \<open>session_step\<close>, one per message and with the
  status of that response, so there are never more than four. The tables stay consistent (the
  used entries of the pipe table are in bijection with the active tenants). The listener returns
  only when receiving fails, and then returns 1.
\<close>

theorem listen_refines_sessions:
  assumes "nng_ok nng" "listener_start nng st" "\<forall>r \<in> set rs. received_pipe_live nng r"
    and "sunneed_listen nng 0 0 rs st = Done (replies, ret, st')"
  shows "server_ok nng st' \<and> ret = (if RecvError \<in> set rs then Some 1 else None) \<and>
    card (sessions (sv_proc st')) \<le> MAX_TENANTS \<and>
    (\<exists>resps. length resps = length (messages rs) \<and>
       handle_requests nng (messages rs) (st\<lparr>sv_proc := init_tenant_pipes nng (sv_proc st)\<rparr>) = Done (resps, st') \<and>
       list_all2 (\<lambda>mr. delivered (fst mr) (snd mr)) (zip (messages rs) resps) replies \<and>
       session_run (zip (messages rs) resps) {} (sessions (sv_proc st')))"
proof -
  let ?st = "st\<lparr>sv_proc := init_tenant_pipes nng (sv_proc st)\<rparr>"
  note S = server_okD [of nng st]
  have ok: "server_ok nng st" "active_set (sv_proc st) = {}" using assms(2) by (auto simp: listener_start_def)
  note I = init_tenant_pipes_ok [OF assms(1) S(1) [OF ok(1)] ok(2) S(2) [OF ok(1)]]
  have ok1: "server_ok nng ?st" using ok(1) I(1,2) by (simp add: server_ok_def)
  obtain resps where run: "handle_requests nng (messages rs) ?st = Done (resps, st')"
    and del: "list_all2 (\<lambda>mr. delivered (fst mr) (snd mr)) (zip (messages rs) resps) replies"
    and ret: "ret = (if RecvError \<in> set rs then Some 1 else None)"
    using listen_loop_run [of nng rs ?st replies ret st'] assms(4) by (auto simp: sunneed_listen_eq)
  have fin: "server_ok nng st'" "length resps = length (messages rs)"
    and spec: "session_run (zip (messages rs) resps) {} (sessions (sv_proc st'))"
    using listener.run_refines [of nng ?st "messages rs" resps st'] assms(1) messages_live [OF assms(3)] I(3) ok1 run
    by (auto simp: spec_run_session_run handle_requests_run)
  have "card (sessions (sv_proc st')) \<le> MAX_TENANTS"
    using session_run_ok [OF spec] sessions_ok_card by (simp add: sessions_ok_def)
  with fin run del spec ret show ?thesis by blast
qed

section \<open>Example states\<close>

definition demo_nng :: nng where
  "demo_nng = \<lparr>nng_pipe_id = (\<lambda>p. if 0 < int_of_u32 p then int_of_u32 p else -1), pipe_initializer = 0\<rparr>"

definition demo_env :: env where
  "demo_env = \<lparr>peer_pid = Some 100, os_open = (\<lambda>_ _ _. 9), os_mkstemp = Some (5, ''locked_aaaaaa''),
     os_write = (\<lambda>_ data. (int (length data), 0)), os_readlink = (\<lambda>_. None), rv_msg_alloc = 0, rv_msg_append = 0, rv_sendmsg = 0\<rparr>"

definition demo_server :: server_state where
  "demo_server = \<lparr>sv_proc = proc_static,
     sv_dev = device_static\<lparr>devices := [demo_device]\<rparr>, sv_locked = lp_of [''/tmp/camera''],
     dummy_path_fd_map = dummy_path_fd_map_static, sv_calls = []\<rparr>"

lemma demo_nng_ok: "nng_ok demo_nng" "live_pipe demo_nng 7" "live_pipe demo_nng 8"
  by (auto simp: nng_ok_def demo_nng_def live_pipe_def int_of_u32_def)

lemma demo_server_ok: "server_ok demo_nng demo_server" "listener_start demo_nng demo_server"
proof -
  show "server_ok demo_nng demo_server"
    using proc_static_ok
    by (simp add: server_ok_def demo_server_def pipes_ok_def demo_nng_def proc_static_def int_of_u32_def
        device_ok_def demo_device_def dummy_path_fd_map_static_def)
  then show "listener_start demo_nng demo_server"
    using fresh_proc_inactive(2) by (simp add: listener_start_def demo_server_def)
qed

section \<open>Registration\<close>

lemma handle_register:
  assumes "server_ok nng st" "live_pipe nng pipe" "peer_pid env = Some pid_int"
    and "sv_locked st = lp_of ps" "length ps < MAX_LOCKED_FILES"
  shows "if card (snd ` sessions (sv_proc st)) < MAX_TENANTS
    then \<exists>t st'. handle_request nng env pipe (Some (RegisterClient name)) st =
        Done (Some \<lparr>resp_status = 0, resp_body = RespRegisterClient ps\<rparr>, st') \<and>
      sessions (sv_proc st') = insert (pipe, t) (sessions (sv_proc st)) \<and>
      t \<notin> snd ` sessions (sv_proc st) \<and> t < MAX_TENANTS \<and>
      pid (tenants (sv_proc st') ! t) = int_of_u64 pid_int \<and> sv_locked st' = sv_locked st
    else handle_request nng env pipe (Some (RegisterClient name)) st =
      Done (Some \<lparr>resp_status = 1, resp_body = RespRegisterClient []\<rparr>, st)"
proof -
  note S = server_okD [OF assms(1)]
  have len: "first_index (\<lambda>p. p = None) (sv_locked st) = Some (length ps)"
    "map the (take (length ps) (sv_locked st)) = ps"
    using assms(4,5) first_index_lp_of [of ps] by (simp_all add: lp_of_def)
  from S(1) assms(3) show ?thesis
  proof (cases rule: register_client_cases [where pipe = pipe])
    case full
    then show ?thesis by (simp add: handle_request_def serve_register_client_def)
  next
    case (fresh i t)
    let ?st' = "st\<lparr>sv_proc := attach i t pipe (int_of_u64 pid_int) (sv_proc st)\<rparr>"
    have "handle_request nng env pipe (Some (RegisterClient name)) st =
        Done (Some \<lparr>resp_status = 0, resp_body = RespRegisterClient ps\<rparr>, ?st')"
      using fresh(1) len by (simp add: handle_request_def serve_register_client_def)
    moreover have "pid (tenants (sv_proc ?st') ! t) = int_of_u64 pid_int"
      using fresh(4) registry_okD(1) [OF S(1)] by (simp add: attach_def activate_def)
    ultimately show ?thesis using fresh(4,6,7) sessions_attach [OF S(1) fresh(2,3)]
      by (auto simp del: snd_conv intro!: exI [of _ t] exI [of _ ?st'])
  qed
qed

lemma demo_no_sessions: "sessions (sv_proc demo_server) = {}"
  using init_tenant_pipes_ok(3) [OF demo_nng_ok(1)] proc_static_ok
  by (auto simp: sessions_def demo_server_def proc_static_def)

theorem listen_refines_sessions_witness:
  "\<exists>st' resps. sunneed_listen demo_nng 0 0
       [Received demo_env 7 (Some (RegisterClient ''TODO'')), RecvError] demo_server =
       Done ([Reply \<lparr>resp_status = 0, resp_body = RespRegisterClient [''/tmp/camera'']\<rparr>], Some 1, st') \<and>
     server_ok demo_nng st' \<and>
     session_run (zip [(demo_env, 7, Some (RegisterClient ''TODO''))] resps) {} (sessions (sv_proc st'))"
proof -
  let ?rs = "[Received demo_env 7 (Some (RegisterClient ''TODO'')), RecvError]"
  let ?st = "demo_server\<lparr>sv_proc := init_tenant_pipes demo_nng (sv_proc demo_server)\<rparr>"
  note S = server_okD [OF demo_server_ok(1)]
  have "active_set (sv_proc demo_server) = {}" using fresh_proc_inactive(2) by (simp add: demo_server_def)
  note I = init_tenant_pipes_ok [OF demo_nng_ok(1) S(1) this S(2)]
  have "server_ok demo_nng ?st" using demo_server_ok(1) I(1,2) by (simp add: server_ok_def)
  moreover have "peer_pid demo_env = Some 100" "sv_locked ?st = lp_of [''/tmp/camera'']"
    "length [''/tmp/camera''] < MAX_LOCKED_FILES"
    by (simp_all add: demo_env_def demo_server_def capacities)
  ultimately obtain st' where "handle_request demo_nng demo_env 7 (Some (RegisterClient ''TODO'')) ?st =
      Done (Some \<lparr>resp_status = 0, resp_body = RespRegisterClient [''/tmp/camera'']\<rparr>, st')"
    using handle_register [OF _ demo_nng_ok(2), of ?st demo_env 100 "[''/tmp/camera'']" "''TODO''"] I(3)
    by (auto simp: capacities)
  then have run: "sunneed_listen demo_nng 0 0 ?rs demo_server =
      Done ([Reply \<lparr>resp_status = 0, resp_body = RespRegisterClient [''/tmp/camera'']\<rparr>], Some 1, st')"
    by (simp add: sunneed_listen_eq serve_message_def send_response_def demo_env_def)
  have "\<forall>r \<in> set ?rs. received_pipe_live demo_nng r" using demo_nng_ok(2) by simp
  from listen_refines_sessions [OF demo_nng_ok(1) demo_server_ok(2) this run] run show ?thesis by auto
qed

text \<open>
  C6. The answer to a registration, on both branches. While fewer than four clients are
  registered the client gets status 0 with the complete list of locked paths, and a tenant
  that nobody else has, carrying its process identifier; with four clients it gets status 1
  and nothing changes.
\<close>

theorem register_request_answer:
  assumes "server_ok nng st" "live_pipe nng pipe" "peer_pid env = Some pid_int"
    and "sv_locked st = lp_of ps" "length ps < MAX_LOCKED_FILES"
  shows "if card (snd ` sessions (sv_proc st)) < MAX_TENANTS
    then \<exists>t st'. handle_request nng env pipe (Some (RegisterClient name)) st =
        Done (Some \<lparr>resp_status = 0, resp_body = RespRegisterClient ps\<rparr>, st') \<and>
      sessions (sv_proc st') = insert (pipe, t) (sessions (sv_proc st)) \<and>
      t \<notin> snd ` sessions (sv_proc st) \<and> t < MAX_TENANTS \<and>
      pid (tenants (sv_proc st') ! t) = int_of_u64 pid_int \<and> sv_locked st' = sv_locked st
    else handle_request nng env pipe (Some (RegisterClient name)) st =
      Done (Some \<lparr>resp_status = 1, resp_body = RespRegisterClient []\<rparr>, st)"
  using assms by (rule handle_register)

theorem register_request_answer_witness:
  "\<exists>t st'. handle_request demo_nng demo_env 7 (Some (RegisterClient ''TODO'')) demo_server =
      Done (Some \<lparr>resp_status = 0, resp_body = RespRegisterClient [''/tmp/camera'']\<rparr>, st') \<and>
    sessions (sv_proc st') = {(7, t)} \<and> pid (tenants (sv_proc st') ! t) = 100"
proof -
  have "peer_pid demo_env = Some 100" "sv_locked demo_server = lp_of [''/tmp/camera'']"
    "length [''/tmp/camera''] < MAX_LOCKED_FILES"
    by (simp_all add: demo_env_def demo_server_def capacities)
  from register_request_answer [OF demo_server_ok(1) demo_nng_ok(2) this, of "''TODO''"] show ?thesis
    by (auto simp: demo_no_sessions capacities int_of_u64_def)
qed

section \<open>The table of open files\<close>

text \<open>
  The table is filled from the front and never emptied: it is a list of pairs of a dummy path
  and a descriptor. A path that is sent with a write selects the first pair it is a prefix of.
\<close>

definition fdm_of :: "(cstr \<times> int) list \<Rightarrow> fd_entry list" where
  "fdm_of es = map (\<lambda>e. \<lparr>fde_path = Some (fst e), fde_fd = snd e\<rparr>) es @
     replicate (MAX_LOCKED_FILES - length es) \<lparr>fde_path = None, fde_fd = 0\<rparr>"

definition lookup_fd :: "(cstr \<times> int) list \<Rightarrow> cstr \<Rightarrow> int" where
  "lookup_fd es d = (case first_index (\<lambda>e. prefix d (fst e)) es of Some i \<Rightarrow> snd (es ! i) | None \<Rightarrow> -1)"

definition open_table :: "server_state \<Rightarrow> (cstr \<times> int) list \<Rightarrow> bool" where
  "open_table st es \<longleftrightarrow> dummy_path_fd_map st = fdm_of es \<and> length es \<le> MAX_LOCKED_FILES"

definition locked_path :: "device_state \<Rightarrow> cstr \<Rightarrow> bool" where
  "locked_path st p \<longleftrightarrow> (\<exists>dev \<in> set (devices st). \<exists>q \<in> set (locked_by dev). prefix p q)"

lemma open_table_static: "dummy_path_fd_map st = dummy_path_fd_map_static \<Longrightarrow> open_table st []"
  by (simp add: open_table_def fdm_of_def dummy_path_fd_map_static_def)

lemma first_index_map: "first_index P (map f xs) = first_index (\<lambda>x. P (f x)) xs"
  by (induction xs) auto

lemma fdm_of_snoc:
  assumes "length es < MAX_LOCKED_FILES"
  shows "(fdm_of es)[length es := \<lparr>fde_path = Some d, fde_fd = fd\<rparr>] = fdm_of (es @ [(d, fd)])"
proof -
  obtain k where k: "MAX_LOCKED_FILES - length es = Suc k" using assms by (metis Suc_diff_Suc)
  then have "MAX_LOCKED_FILES - Suc (length es) = k" by simp
  with k show ?thesis by (simp add: fdm_of_def list_update_append)
qed

lemma fdm_of_free:
  "length es \<le> MAX_LOCKED_FILES \<Longrightarrow> first_index (\<lambda>e. fde_path e = None) (fdm_of es) =
     (if length es < MAX_LOCKED_FILES then Some (length es) else None)"
proof -
  assume "length es \<le> MAX_LOCKED_FILES"
  moreover have "first_index (\<lambda>e. fde_path e = None) (map (\<lambda>e. \<lparr>fde_path = Some (fst e), fde_fd = snd e\<rparr>) es) = None"
    by (auto simp: first_index_None_iff)
  ultimately show ?thesis by (simp add: fdm_of_def first_index_append first_index_replicate)
qed

lemma get_fd_lookup:
  assumes "open_table st es"
  shows "get_fd_from_dummy_path d st = lookup_fd es d"
proof -
  have "first_index (fd_entry_hit d) (fdm_of es) = first_index (\<lambda>e. prefix d (fst e)) es"
    by (simp add: fdm_of_def first_index_append first_index_replicate first_index_map fd_entry_hit_def
        strncmp_length_right split: option.split)
  then show ?thesis
    using assms by (auto simp: open_table_def get_fd_from_dummy_path_def lookup_fd_def fdm_of_def nth_append
        dest!: first_index_SomeD split: option.split)
qed

lemma lookup_fd_append:
  "\<exists>e \<in> set es. prefix d (fst e) \<Longrightarrow> lookup_fd (es @ es') d = lookup_fd es d"
  using first_index_None_iff [of "\<lambda>e. prefix d (fst e)" es]
  by (auto simp: lookup_fd_def first_index_append nth_append dest: first_index_SomeD split: option.splits)

lemma lookup_fd_new:
  "\<forall>e \<in> set es. \<not> prefix d (fst e) \<Longrightarrow> lookup_fd (es @ [(d, fd)]) d = fd"
  using first_index_None_iff [of "\<lambda>e. prefix d (fst e)" es]
  by (simp add: lookup_fd_def first_index_append nth_append)

text \<open>Opening a file, on every branch, over the list of pairs.\<close>

lemma serve_open_file_eq:
  assumes "\<forall>dev \<in> set (devices (sv_dev st)). device_ok dev" "open_table st es"
  shows "serve_open_file env path flags mode st =
    (if \<not> locked_path (sv_dev st) path then Done (1, RespOpenFile [], st)
     else let fd = os_open env path flags mode; st1 = log_call (SysOpen path flags mode fd) st
       in if fd = -1 then Done (1, RespOpenFile [], st1)
          else let r = sunneed_device_get_dummy_file path (os_mkstemp env) (sv_dev st)
            in if length es = MAX_LOCKED_FILES then Done (1, RespOpenFile [], st1\<lparr>sv_dev := snd r\<rparr>)
               else case fst r of
                      None \<Rightarrow> Fault NullDeref
                    | Some d \<Rightarrow> Done (0, RespOpenFile d,
                        st1\<lparr>sv_dev := snd r, dummy_path_fd_map := fdm_of (es @ [(d, fd)])\<rparr>))"
proof -
  have locker: "sunneed_device_file_locker path (sv_dev st) =
      Done (first_index (\<lambda>dev. \<exists>q \<in> set (locked_by dev). prefix path q) (devices (sv_dev st)))"
    using assms(1) by (rule file_locker_Done)
  have lp: "locked_path (sv_dev st) path \<longleftrightarrow>
      first_index (\<lambda>dev. \<exists>q \<in> set (locked_by dev). prefix path q) (devices (sv_dev st)) \<noteq> None"
    by (simp add: locked_path_def first_index_None_iff del: not_None_eq)
  have table: "first_index (\<lambda>e. fde_path e = None) (dummy_path_fd_map st) =
      (if length es < MAX_LOCKED_FILES then Some (length es) else None)" "dummy_path_fd_map st = fdm_of es"
    "length es \<le> MAX_LOCKED_FILES"
    using assms(2) fdm_of_free [of es] by (auto simp: open_table_def)
  show ?thesis
  proof (cases "locked_path (sv_dev st) path")
    case False
    then show ?thesis using locker lp by (simp add: serve_open_file_def)
  next
    case True
    then obtain k where
      k: "first_index (\<lambda>dev. \<exists>q \<in> set (locked_by dev). prefix path q) (devices (sv_dev st)) = Some k"
      using lp by blast
    show ?thesis
      using True table locker k
      by (auto simp: serve_open_file_def Let_def fdm_of_snoc split: prod.split option.split)
  qed
qed

lemma serve_open_table:
  assumes "server_ok nng st" "open_table st es" "serve_open_file env path flags mode st = Done (ret, body, st')"
  shows "\<exists>es'. open_table st' (es @ es')"
proof -
  have t: "dummy_path_fd_map st = fdm_of es" "length es \<le> MAX_LOCKED_FILES"
    using assms(2) by (auto simp: open_table_def)
  show ?thesis
    using assms(3) t unfolding serve_open_file_eq [OF server_okD(3) [OF assms(1)] assms(2)] open_table_def
    by (auto simp: Let_def split: if_splits option.splits intro: exI [of _ "[]"] exI [of _ "[_]"])
qed

lemma handle_request_table:
  assumes "nng_ok nng" "live_pipe nng pipe" "server_ok nng st" "open_table st es"
    and "handle_request nng env pipe request st = Done (resp, st')"
  shows "\<exists>es'. open_table st' (es @ es')"
proof -
  have same: "\<exists>es'. open_table st' (es @ es')" if "dummy_path_fd_map st' = dummy_path_fd_map st"
    using that assms(4) by (intro exI [of _ "[]"]) (simp add: open_table_def)
  from assms(5) consider "st' = st"
    | req t ret body where "dispatch nng env pipe t req st = Done (ret, body, st')"
    by (auto simp: handle_request_def Let_def split: option.splits if_splits)
  then show ?thesis
  proof cases
    case 1
    then show ?thesis by (intro same) simp
  next
    case 2
    then show ?thesis
    proof (cases req)
      case (OpenFile path flags mode)
      with 2 serve_open_table [OF assms(3,4)] show ?thesis by simp
    qed (auto simp: serve_register_client_def serve_unregister_client_def Let_def intro!: same
        dest: serve_write_frame(4) split: option.splits prod.splits if_splits)
  qed
qed

lemma run_table:
  assumes "nng_ok nng" "server_ok nng st" "open_table st es"
    and "\<forall>m \<in> set ms. live_pipe nng (fst (snd m))" "handle_requests nng ms st = Done (rs, st')"
  shows "server_ok nng st' \<and> (\<exists>es'. open_table st' (es @ es'))"
  using assms
proof (induction ms arbitrary: st es rs)
  case Nil
  then show ?case by (auto intro: exI [of _ "[]"])
next
  case (Cons m ms)
  then obtain r st1 rs1 where one: "handle_request nng (fst m) (fst (snd m)) (snd (snd m)) st = Done (r, st1)"
    and rest: "handle_requests nng ms st1 = Done (rs1, st')" by auto
  have live: "live_pipe nng (fst (snd m))" using Cons.prems(4) by simp
  have ok1: "server_ok nng st1" using handle_request_refines [OF Cons.prems(1) live Cons.prems(2) one] by blast
  obtain es1 where "open_table st1 (es @ es1)"
    using handle_request_table [OF Cons.prems(1) live Cons.prems(2,3) one] by blast
  from Cons.IH [OF Cons.prems(1) ok1 this _ rest] Cons.prems(4) show ?case by auto
qed

definition links_ok :: "env \<Rightarrow> bool" where
  "links_ok env \<longleftrightarrow> (\<forall>path target. os_readlink env path = Some target \<longrightarrow> length target < 1024)"

lemma real_path_Done: "links_ok env \<Longrightarrow> \<exists>p. real_path_of_fd env fd = Done p"
  unfolding links_ok_def real_path_of_fd_def by (auto split: option.split) (meson not_le)

text \<open>
  The name of the file is read into a buffer of 1024 bytes that is then printed as a string; a
  longer name leaves no terminating zero, and the printing reads past the buffer.
\<close>

lemma long_link_faults:
  assumes "get_fd_from_dummy_path d st = fd" "os_readlink env (''/proc/self/fd/'' @ dec_int fd) = Some p" "1024 \<le> length p"
  shows "serve_write env d data st = Fault OutOfBounds"
  using assms by (simp add: serve_write_def real_path_of_fd_def)

lemma demo_links_ok: "links_ok demo_env"
  by (simp add: links_ok_def demo_env_def)

lemma handle_write:
  assumes "tenant_of_pipe nng (int_of_u32 pipe) (sv_proc st) = Some t" "open_table st es" "links_ok env"
  shows "handle_request nng env pipe (Some (Write d data)) st =
    (let fd = lookup_fd es d; w = os_write env fd data
     in Done (Some \<lparr>resp_status = (if fst w < 0 then 1 else 0),
          resp_body = RespCallWrite (if fst w < 0 then snd w else 0) (of_int (fst w))\<rparr>,
          log_call (SysWrite fd data) st))"
proof -
  obtain p where "real_path_of_fd env (lookup_fd es d) = Done p" using real_path_Done [OF assms(3)] by blast
  then show ?thesis
    using assms(1) get_fd_lookup [OF assms(2), of d]
    by (simp add: handle_request_def serve_write_def Let_def split: prod.split)
qed

lemma handle_open:
  assumes "server_ok nng st" "tenant_of_pipe nng (int_of_u32 pipe) (sv_proc st) = Some t" "open_table st es"
    and "locked_path (sv_dev st) path" "os_open env path flags mode = fd" "fd \<noteq> -1" "length es < MAX_LOCKED_FILES"
    and "sunneed_device_get_dummy_file path (os_mkstemp env) (sv_dev st) = (Some d, dst)"
  shows "handle_request nng env pipe (Some (OpenFile path flags mode)) st =
    Done (Some \<lparr>resp_status = 0, resp_body = RespOpenFile d\<rparr>,
      (log_call (SysOpen path flags mode fd) st)\<lparr>sv_dev := dst, dummy_path_fd_map := fdm_of (es @ [(d, fd)])\<rparr>)"
  using assms serve_open_file_eq [OF server_okD(3) [OF assms(1)] assms(3), of env path flags mode]
  by (simp add: handle_request_def Let_def)

text \<open>
  C3. Opening a locked file and writing to it. When a registered client opens a locked path
  whose dummy is not yet in the table, it is answered the dummy; and after any further
  messages from any clients, a write that names this dummy reaches the descriptor of the real
  file opened for it, with exactly the bytes that were sent, and the answer carries what the
  system call returned. (The name of the file must fit a buffer of 1024 bytes into which the
  daemon reads it before every write.)
\<close>

theorem open_write_roundtrip:
  assumes "nng_ok nng" "server_ok nng st" "tenant_of_pipe nng (int_of_u32 pipe) (sv_proc st) = Some t"
    and "open_table st es" "length es < MAX_LOCKED_FILES" "locked_path (sv_dev st) path"
    and "os_open env path flags mode = fd" "fd \<noteq> -1"
    and "sunneed_device_get_dummy_file path (os_mkstemp env) (sv_dev st) = (Some d, dst)"
    and "\<forall>e \<in> set es. \<not> prefix d (fst e)"
  shows "\<exists>st1. handle_request nng env pipe (Some (OpenFile path flags mode)) st =
      Done (Some \<lparr>resp_status = 0, resp_body = RespOpenFile d\<rparr>, st1) \<and>
    sv_calls st1 = sv_calls st @ [SysOpen path flags mode fd] \<and>
    (\<forall>ms rs st2 env' pipe' data. (\<forall>m \<in> set ms. live_pipe nng (fst (snd m))) \<longrightarrow>
       handle_requests nng ms st1 = Done (rs, st2) \<longrightarrow> links_ok env' \<longrightarrow>
       tenant_of_pipe nng (int_of_u32 pipe') (sv_proc st2) \<noteq> None \<longrightarrow>
       (let w = os_write env' fd data
        in \<exists>st3. handle_request nng env' pipe' (Some (Write d data)) st2 =
             Done (Some \<lparr>resp_status = (if fst w < 0 then 1 else 0),
               resp_body = RespCallWrite (if fst w < 0 then snd w else 0) (of_int (fst w))\<rparr>, st3) \<and>
           sv_calls st3 = sv_calls st2 @ [SysWrite fd data]))"
proof -
  let ?es1 = "es @ [(d, fd)]"
  let ?st1 = "(log_call (SysOpen path flags mode fd) st)\<lparr>sv_dev := dst, dummy_path_fd_map := fdm_of ?es1\<rparr>"
  note op = handle_open [OF assms(2,3,4,6,7,8,5,9)]
  have "devices dst = devices (sv_dev st)"
    using get_dummy_devices [of path "os_mkstemp env" "sv_dev st"] assms(9) by simp
  then have "server_ok nng ?st1"
    using assms(2,5) by (simp add: server_ok_def) (simp add: fdm_of_def)
  moreover have "open_table ?st1 ?es1" using assms(5) by (simp add: open_table_def)
  moreover have "lookup_fd (?es1 @ es') d = fd" for es'
    using lookup_fd_new [OF assms(10), of fd] lookup_fd_append [of ?es1 d es'] by simp
  ultimately have later: "\<exists>es'. open_table st2 es' \<and> lookup_fd es' d = fd"
    if "\<forall>m \<in> set ms. live_pipe nng (fst (snd m))" "handle_requests nng ms ?st1 = Done (rs, st2)" for ms rs st2
    using that run_table [OF assms(1), of ?st1 ?es1 ms rs st2] by metis
  show ?thesis
  proof (intro exI [of _ ?st1] conjI op allI impI)
    fix ms rs st2 env' pipe' data
    assume run: "\<forall>m \<in> set ms. live_pipe nng (fst (snd m))" "handle_requests nng ms ?st1 = Done (rs, st2)"
      and links: "links_ok env'" and "tenant_of_pipe nng (int_of_u32 pipe') (sv_proc st2) \<noteq> None"
    then obtain t' es' where "tenant_of_pipe nng (int_of_u32 pipe') (sv_proc st2) = Some t'"
      "open_table st2 es'" "lookup_fd es' d = fd" using later [OF run] by auto
    from handle_write [OF this(1,2) links, of d data] this(3)
    show "let w = os_write env' fd data
        in \<exists>st3. handle_request nng env' pipe' (Some (Write d data)) st2 =
             Done (Some \<lparr>resp_status = (if fst w < 0 then 1 else 0),
               resp_body = RespCallWrite (if fst w < 0 then snd w else 0) (of_int (fst w))\<rparr>, st3) \<and>
           sv_calls st3 = sv_calls st2 @ [SysWrite fd data]"
      by (simp add: Let_def)
  qed simp
qed

definition demo_registered :: server_state where
  "demo_registered = demo_server\<lparr>sv_proc := attach 0 0 7 100 proc_static\<rparr>"

lemma demo_registered_ok: "server_ok demo_nng demo_registered" "open_table demo_registered []"
  "tenant_of_pipe demo_nng (int_of_u32 7) (sv_proc demo_registered) = Some 0"
proof -
  have free: "tp_tenant (tenant_pipes proc_static ! 0) = None" "\<not> is_active (tenants proc_static ! 0)"
    by (simp_all add: proc_static_def zero_tenant_def capacities)
  have P: "registry_ok (attach 0 0 7 100 proc_static)" "pipes_ok demo_nng (attach 0 0 7 100 proc_static)"
    using free server_okD(2) [OF demo_server_ok(1)]
    by (auto intro!: attach_registry_ok attach_pipes_ok proc_static_ok demo_nng_ok
        simp: capacities demo_server_def)
  then show ok: "server_ok demo_nng demo_registered"
    using demo_server_ok(1) by (simp add: server_ok_def demo_registered_def)
  show "open_table demo_registered []"
    by (rule open_table_static) (simp add: demo_registered_def demo_server_def)
  have s: "sessions (attach 0 0 7 100 proc_static) = {(7, 0)}"
    using sessions_attach [OF proc_static_ok _ free(1)] demo_no_sessions
    by (simp add: demo_server_def capacities)
  then have "tenant_of_pipe demo_nng (int_of_u32 7) (attach 0 0 7 100 proc_static) \<noteq> None"
    using tenant_of_pipe_sessions [OF demo_nng_ok(1,2) P] by simp
  then obtain t where t: "tenant_of_pipe demo_nng (int_of_u32 7) (attach 0 0 7 100 proc_static) = Some t" by blast
  then have "(7, t) \<in> sessions (attach 0 0 7 100 proc_static)"
    using tenant_of_pipe_SomeD [OF demo_nng_ok(1,2) P(1) t] unfolding mem_sessions by metis
  with s t show "tenant_of_pipe demo_nng (int_of_u32 7) (sv_proc demo_registered) = Some 0"
    by (simp add: demo_registered_def)
qed

lemma demo_locked: "locked_path (sv_dev demo_registered) ''/tmp/camera''"
proof -
  have "locked_by demo_device = [''/tmp/camera'']"
    by (simp add: locked_by_def demo_device_def DEVICE_TYPE_FILE_LOCK_def)
  then show ?thesis
    by (simp add: locked_path_def demo_registered_def demo_server_def)
qed

lemma demo_dummy:
  obtains dst where "sunneed_device_get_dummy_file ''/tmp/camera'' (os_mkstemp demo_env) (sv_dev demo_registered)
    = (Some ''locked_aaaaaa'', dst)"
proof -
  obtain n where n: "MAX_LOCKED_FILES = Suc n" by (metis MAX_LOCKED_FILES_def numeral_eq_Suc)
  show ?thesis
    by (rule that, simp add: sunneed_device_get_dummy_file_def demo_registered_def demo_server_def demo_env_def
        device_static_def slot_alloc_def fill_dummy_def dummy_hit_def first_index_replicate n
        capacities)
qed

theorem open_write_roundtrip_witness:
  "\<exists>st1 st3. handle_request demo_nng demo_env 7 (Some (OpenFile ''/tmp/camera'' 1 0)) demo_registered =
      Done (Some \<lparr>resp_status = 0, resp_body = RespOpenFile ''locked_aaaaaa''\<rparr>, st1) \<and>
    handle_request demo_nng demo_env 7 (Some (Write ''locked_aaaaaa'' [1, 0, 2])) st1 =
      Done (Some \<lparr>resp_status = 0, resp_body = RespCallWrite 0 3\<rparr>, st3) \<and>
    sv_calls st3 = [SysOpen ''/tmp/camera'' 1 0 9, SysWrite 9 [1, 0, 2]]"
proof -
  note D = demo_registered_ok
  obtain dst where dst: "sunneed_device_get_dummy_file ''/tmp/camera'' (os_mkstemp demo_env) (sv_dev demo_registered)
    = (Some ''locked_aaaaaa'', dst)" by (rule demo_dummy)
  have fd: "os_open demo_env ''/tmp/camera'' 1 0 = 9" "(9 :: int) \<noteq> -1" "length [] < MAX_LOCKED_FILES"
    "\<forall>e \<in> set []. \<not> prefix ''locked_aaaaaa'' (fst e)"
    by (simp_all add: demo_env_def capacities)
  obtain st1 where st1: "handle_request demo_nng demo_env 7 (Some (OpenFile ''/tmp/camera'' 1 0)) demo_registered =
      Done (Some \<lparr>resp_status = 0, resp_body = RespOpenFile ''locked_aaaaaa''\<rparr>, st1)"
    "sv_calls st1 = sv_calls demo_registered @ [SysOpen ''/tmp/camera'' 1 0 9]"
    and later: "\<And>ms rs st2 env' pipe' data. (\<forall>m \<in> set ms. live_pipe demo_nng (fst (snd m))) \<longrightarrow>
       handle_requests demo_nng ms st1 = Done (rs, st2) \<longrightarrow> links_ok env' \<longrightarrow>
       tenant_of_pipe demo_nng (int_of_u32 pipe') (sv_proc st2) \<noteq> None \<longrightarrow>
       (let w = os_write env' 9 data
        in \<exists>st3. handle_request demo_nng env' pipe' (Some (Write ''locked_aaaaaa'' data)) st2 =
             Done (Some \<lparr>resp_status = (if fst w < 0 then 1 else 0),
               resp_body = RespCallWrite (if fst w < 0 then snd w else 0) (of_int (fst w))\<rparr>, st3) \<and>
           sv_calls st3 = sv_calls st2 @ [SysWrite 9 data])"
    using open_write_roundtrip [OF demo_nng_ok(1) D(1,3,2) fd(3) demo_locked fd(1,2) dst fd(4)] by auto
  have "sv_proc st1 = sv_proc demo_registered"
    using st1(1) serve_open_frame(1) by (auto simp: handle_request_def D(3))
  then have "tenant_of_pipe demo_nng (int_of_u32 7) (sv_proc st1) \<noteq> None" using D(3) by simp
  moreover have "handle_requests demo_nng [] st1 = Done ([], st1)" by simp
  ultimately show ?thesis
    using later [of "[]" "[]" st1 demo_env 7 "[1, 0, 2]"] st1 demo_links_ok
    by (simp add: demo_env_def Let_def demo_registered_def demo_server_def)
qed

text \<open>
  C27. Opening a locked file again. The client gets the same dummy, and the new descriptor is
  stored behind the old ones. But after any further messages from any clients, a write that
  names the dummy (or a prefix of it, which selects the same entry) is made on the descriptor
  that it had before the second open: the flags of the later open have no effect on it.
\<close>

theorem reopen_keeps_first_descriptor:
  assumes "nng_ok nng" "server_ok nng st" "tenant_of_pipe nng (int_of_u32 pipe) (sv_proc st) = Some t"
    and "open_table st es" "length es < MAX_LOCKED_FILES" "locked_path (sv_dev st) path"
    and "os_open env path flags mode = fd" "fd \<noteq> -1"
    and "dummy_lookup (sv_dev st) path = Some d" "e \<in> set es" "prefix d (fst e)"
  shows "\<exists>st1. handle_request nng env pipe (Some (OpenFile path flags mode)) st =
      Done (Some \<lparr>resp_status = 0, resp_body = RespOpenFile d\<rparr>, st1) \<and>
    open_table st1 (es @ [(d, fd)]) \<and>
    (\<forall>ms rs st2 env' pipe' d' data. (\<forall>m \<in> set ms. live_pipe nng (fst (snd m))) \<longrightarrow>
       handle_requests nng ms st1 = Done (rs, st2) \<longrightarrow> links_ok env' \<longrightarrow>
       tenant_of_pipe nng (int_of_u32 pipe') (sv_proc st2) \<noteq> None \<longrightarrow> prefix d' d \<longrightarrow>
       (\<exists>r st3. handle_request nng env' pipe' (Some (Write d' data)) st2 = Done (r, st3) \<and>
          sv_calls st3 = sv_calls st2 @ [SysWrite (get_fd_from_dummy_path d' st) data]))"
proof -
  let ?es = "es @ [(d, fd)]"
  let ?st1 = "(log_call (SysOpen path flags mode fd) st)\<lparr>sv_dev := sv_dev st, dummy_path_fd_map := fdm_of ?es\<rparr>"
  note op = handle_open [OF assms(2,3,4,6,7,8,5) get_dummy_hit [OF assms(9)]]
  have tab: "open_table ?st1 ?es" using assms(5) by (simp add: open_table_def)
  have "length (fdm_of ?es) = MAX_LOCKED_FILES" using assms(5) by (simp add: fdm_of_def)
  then have ok: "server_ok nng ?st1" using assms(2) by (simp add: server_ok_def)
  have "\<exists>r st3. handle_request nng env' pipe' (Some (Write d' data)) st2 = Done (r, st3) \<and>
      sv_calls st3 = sv_calls st2 @ [SysWrite (get_fd_from_dummy_path d' st) data]"
    if A: "\<forall>m \<in> set ms. live_pipe nng (fst (snd m))" "handle_requests nng ms ?st1 = Done (rs, st2)" "links_ok env'"
      "tenant_of_pipe nng (int_of_u32 pipe') (sv_proc st2) \<noteq> None" "prefix d' d"
    for ms rs st2 env' pipe' d' data
  proof -
    obtain es' where t2: "open_table st2 (?es @ es')" using run_table [OF assms(1) ok tab A(1,2)] by blast
    obtain u where u: "tenant_of_pipe nng (int_of_u32 pipe') (sv_proc st2) = Some u" using A(4) by blast
    have "prefix d' (fst e)" using A(5) assms(11) by (rule prefix_order.trans)
    then have "lookup_fd (es @ (d, fd) # es') d' = lookup_fd es d'" using assms(10) by (intro lookup_fd_append) blast
    then show ?thesis
      using handle_write [OF u t2 A(3), of d' data] get_fd_lookup [OF assms(4), of d'] by (simp add: Let_def)
  qed
  with op tab show ?thesis by blast
qed

definition demo_opened :: server_state where
  "demo_opened = demo_registered\<lparr>dummy_path_fd_map := fdm_of [(''locked_aaaaaa'', 9)],
     sv_dev := (sv_dev demo_registered)\<lparr>dummy_map :=
       [\<lparr>d_init = True, d_pathname = ''/tmp/camera'', d_dummypath = ''locked_aaaaaa''\<rparr>]\<rparr>\<rparr>"

lemma demo_opened_ok: "server_ok demo_nng demo_opened" "open_table demo_opened [(''locked_aaaaaa'', 9)]"
  "tenant_of_pipe demo_nng (int_of_u32 7) (sv_proc demo_opened) = Some 0"
  "locked_path (sv_dev demo_opened) ''/tmp/camera''"
  "dummy_lookup (sv_dev demo_opened) ''/tmp/camera'' = Some ''locked_aaaaaa''"
proof -
  have "length (fdm_of [(''locked_aaaaaa'', 9)]) = MAX_LOCKED_FILES" by (simp add: fdm_of_def capacities)
  then show "server_ok demo_nng demo_opened" using demo_registered_ok(1) by (simp add: server_ok_def demo_opened_def)
  show "open_table demo_opened [(''locked_aaaaaa'', 9)]" by (simp add: open_table_def demo_opened_def capacities)
  show "tenant_of_pipe demo_nng (int_of_u32 7) (sv_proc demo_opened) = Some 0"
    using demo_registered_ok(3) by (simp add: demo_opened_def)
  show "locked_path (sv_dev demo_opened) ''/tmp/camera''"
    using demo_locked by (simp add: locked_path_def demo_opened_def)
  show "dummy_lookup (sv_dev demo_opened) ''/tmp/camera'' = Some ''locked_aaaaaa''"
    by (simp add: dummy_lookup_def demo_opened_def dummy_hit_def)
qed

theorem reopen_keeps_first_descriptor_witness:
  "\<exists>st1 r st3. handle_request demo_nng (demo_env\<lparr>os_open := \<lambda>_ _ _. 10\<rparr>) 7 (Some (OpenFile ''/tmp/camera'' 2 0)) demo_opened =
      Done (Some \<lparr>resp_status = 0, resp_body = RespOpenFile ''locked_aaaaaa''\<rparr>, st1) \<and>
    handle_request demo_nng demo_env 7 (Some (Write ''locked_aaaaaa'' [65])) st1 = Done (r, st3) \<and>
    sv_calls st3 = sv_calls st1 @ [SysWrite 9 [65]]"
proof -
  note D = demo_opened_ok
  let ?env = "demo_env\<lparr>os_open := \<lambda>_ _ _. 10\<rparr>"
  have fd: "length [(''locked_aaaaaa'', 9)] < MAX_LOCKED_FILES" "os_open ?env ''/tmp/camera'' 2 0 = 10" "(10 :: int) \<noteq> -1"
    "(''locked_aaaaaa'', 9) \<in> set [(''locked_aaaaaa'', 9)]" "prefix ''locked_aaaaaa'' (fst (''locked_aaaaaa'', 9))"
    by (simp_all add: capacities)
  obtain st1 where st1: "handle_request demo_nng ?env 7 (Some (OpenFile ''/tmp/camera'' 2 0)) demo_opened =
      Done (Some \<lparr>resp_status = 0, resp_body = RespOpenFile ''locked_aaaaaa''\<rparr>, st1)"
    and later: "\<And>ms rs st2 env' pipe' d' data. (\<forall>m \<in> set ms. live_pipe demo_nng (fst (snd m))) \<longrightarrow>
       handle_requests demo_nng ms st1 = Done (rs, st2) \<longrightarrow> links_ok env' \<longrightarrow>
       tenant_of_pipe demo_nng (int_of_u32 pipe') (sv_proc st2) \<noteq> None \<longrightarrow> prefix d' ''locked_aaaaaa'' \<longrightarrow>
       (\<exists>r st3. handle_request demo_nng env' pipe' (Some (Write d' data)) st2 = Done (r, st3) \<and>
          sv_calls st3 = sv_calls st2 @ [SysWrite (get_fd_from_dummy_path d' demo_opened) data])"
    using reopen_keeps_first_descriptor [OF demo_nng_ok(1) D(1,3,2) fd(1) D(4) fd(2,3) D(5) fd(4,5)] by blast
  have "sv_proc st1 = sv_proc demo_opened"
    using st1(1) serve_open_frame(1) by (auto simp: handle_request_def D(3))
  then have "tenant_of_pipe demo_nng (int_of_u32 7) (sv_proc st1) \<noteq> None" using D(3) by simp
  moreover have "get_fd_from_dummy_path ''locked_aaaaaa'' demo_opened = 9"
    using get_fd_lookup [OF D(2)] by (simp add: lookup_fd_def)
  ultimately show ?thesis
    using later [of "[]" "[]" st1 demo_env 7 "''locked_aaaaaa''" "[65]"] st1 demo_links_ok by auto
qed




text \<open>
  C26. A client that is not registered is ignored: whatever it asks for except registration,
  the daemon changes nothing, makes no system call and sends no answer.
\<close>

theorem unregistered_request_ignored:
  assumes "nng_ok nng" "live_pipe nng pipe" "server_ok nng st" "pipe \<notin> fst ` sessions (sv_proc st)"
    and "\<forall>n. req \<noteq> RegisterClient n"
  shows "serve_message nng env pipe (Some req) st = Done (NoReply, st)"
proof -
  have "\<not> is_register req" using assms(5) by (cases req) auto
  moreover have "tenant_of_pipe nng (int_of_u32 pipe) (sv_proc st) = None"
    using tenant_of_pipe_sessions [OF assms(1,2) server_okD(1,2) [OF assms(3)]] assms(4) by simp
  ultimately show ?thesis by (simp add: serve_message_def handle_request_def)
qed

theorem unregistered_request_ignored_witness:
  "serve_message demo_nng demo_env 8 (Some (Write ''locked_aaaaaa'' [1])) demo_server = Done (NoReply, demo_server)"
  using demo_nng_ok demo_server_ok(1) demo_no_sessions by (intro unregistered_request_ignored) auto

section \<open>Errors that are not handled\<close>

text \<open>
  The errors of \<open>nng\<close> are positive, and \<open>nng_listen\<close> is tested for a negative result: when
  the address is in use the listener goes on as if it were listening.
\<close>

lemma listen_error_undetected:
  "0 < rv \<Longrightarrow> sunneed_listen nng 0 rv rs st = sunneed_listen nng 0 0 rs st"
  by (simp add: sunneed_listen_eq)

lemma peer_pid_failure_faults:
  "peer_pid env = None \<Longrightarrow> serve_register_client env pipe st = Fault UninitRead"
  by (simp add: serve_register_client_def register_client_def)

lemma full_path_list_faults:
  assumes "server_ok nng st" "peer_pid env = Some pid_int" "sv_locked st = lp_of ps"
    "length ps = MAX_LOCKED_FILES" "fst (sunneed_tenant_register (int_of_u64 pid_int) (sv_proc st)) = Some t"
  shows "serve_register_client env pipe st = Fault OutOfBounds"
proof -
  have "first_index (\<lambda>p. p = None) (sv_locked st) = None"
    using first_index_lp_of [of ps] assms(3,4) by simp
  moreover obtain pst where "sunneed_tenant_register (int_of_u64 pid_int) (sv_proc st) = (Some t, pst)"
    using assms(5) by (metis prod.collapse)
  moreover from register_client_attach [OF server_okD(1) [OF assms(1)] assms(2) this]
  obtain pst' where "register_client env pipe (sv_proc st) = Done (Some t, pst')" by metis
  ultimately show ?thesis by (simp add: serve_register_client_def)
qed

text \<open>A dummy file that cannot be created is dereferenced all the same.\<close>

lemma failed_dummy_faults:
  assumes "server_ok nng st" "open_table st es" "length es < MAX_LOCKED_FILES" "locked_path (sv_dev st) path"
    "os_open env path flags mode \<noteq> -1" "dummy_lookup (sv_dev st) path = None" "os_mkstemp env = None"
  shows "serve_open_file env path flags mode st = Fault NullDeref"
  using assms by (simp add: serve_open_file_eq [OF server_okD(3)] Let_def sunneed_device_get_dummy_file_def
      dummy_lookup_def)

end
