(* ===== verification/Sunneed_Options.thy ===== *)
theory Sunneed_Options
  imports Sunneed_Scanf
begin

text \<open>
  The command line of the daemon: the loop over \<^verbatim>\<open>getopt\<close> in \<open>main\<close> of
  \<^verbatim>\<open>src/src/sunneed_core.c\<close>, with the runtime tests that an option can ask for
  (\<^verbatim>\<open>sunneed_runtime_test_collection.h\<close>) and the help text of \<^verbatim>\<open>sunneed_core.h\<close>. Every build of the
  Makefile defines \<^verbatim>\<open>TESTING\<close>, so this is the variant with the options \<^verbatim>\<open>-t\<close> and \<^verbatim>\<open>-c\<close>.

  \<open>getopt_all\<close> is what repeated calls of \<^verbatim>\<open>getopt\<close> of the GNU C library return: options may be
  joined in one argument, an option argument may be joined to its option, arguments that are
  no options are passed over, and \<^verbatim>\<open>--\<close> ends the options. \<open>strtol10\<close> is \<^verbatim>\<open>strtol\<close> with the base 10
  on a \<open>long\<close> of 64 bits.
\<close>

section \<open>Runtime tests\<close>

text \<open>
  The array of tests is an array of function pointers, \<open>None\<close> standing for NULL; a test is
  what it returns. The loop that counts them reads until it finds NULL.
\<close>

definition RUNTIME_TESTS :: "'t \<Rightarrow> 't \<Rightarrow> 't option list" where
  "RUNTIME_TESTS load_device_test load_broken_device_test = [Some load_device_test, Some load_broken_device_test]"

definition testcase_count :: "'t option list \<Rightarrow> u32 outcome" where
  "testcase_count tests =
     (case first_index (\<lambda>t. t = None) tests of
        None \<Rightarrow> Fault OutOfBounds
      | Some n \<Rightarrow> Done (of_nat n - 1))"

definition run_testcase :: "int outcome option list \<Rightarrow> u32 \<Rightarrow> int outcome" where
  "run_testcase tests testcase =
     obind (testcase_count tests) (\<lambda>n.
       if n \<le> testcase then Done 1
       else case tests ! unat testcase of None \<Rightarrow> Fault NullDeref | Some r \<Rightarrow> r)"

section \<open>The library functions\<close>

datatype getopt_item = GoOpt char "cstr option" | GoIllegal char | GoMissing char

text \<open>Whether a character is an option of \<open>optstring\<close>, and if so whether it takes an argument.\<close>

fun opt_spec :: "cstr \<Rightarrow> char \<Rightarrow> bool option" where
  "opt_spec [] c = None"
| "opt_spec (x # xs) c =
     (if x = c \<and> c \<noteq> CHR '':'' then Some (xs \<noteq> [] \<and> hd xs = CHR '':'') else opt_spec xs c)"

text \<open>The second argument is what is left of the argument that is being read.\<close>

fun getopt_all :: "cstr \<Rightarrow> cstr \<Rightarrow> cstr list \<Rightarrow> getopt_item list" where
  "getopt_all optstring [] [] = []"
| "getopt_all optstring [] (arg # args) =
     (if arg = ''--'' then []
      else if 2 \<le> length arg \<and> hd arg = CHR ''-'' then getopt_all optstring (tl arg) args
      else getopt_all optstring [] args)"
| "getopt_all optstring (c # cs) args =
     (case opt_spec optstring c of
        None \<Rightarrow> GoIllegal c # getopt_all optstring cs args
      | Some False \<Rightarrow> GoOpt c None # getopt_all optstring cs args
      | Some True \<Rightarrow>
          if cs \<noteq> [] then GoOpt c (Some cs) # getopt_all optstring [] args
          else (case args of
                  [] \<Rightarrow> [GoMissing c]
                | arg # args' \<Rightarrow> GoOpt c (Some arg) # getopt_all optstring [] args'))"

definition strtol10 :: "cstr \<Rightarrow> int \<times> bool" where
  "strtol10 s =
     (case scan_number s of
        None \<Rightarrow> (0, False)
      | Some (neg, n, rest) \<Rightarrow>
          let v = (if neg then - int n else int n)
          in if 2 ^ 63 - 1 < v then (2 ^ 63 - 1, True)
             else if v < - (2 ^ 63) then (- (2 ^ 63), True)
             else (v, False))"

section \<open>The options of the daemon\<close>

definition optstring :: cstr where
  "optstring = '':ht:c''"

definition APP_NAME :: cstr where
  "APP_NAME = ''sunneed''"

definition HELP_TEXT :: "cstr \<Rightarrow> cstr" where
  "HELP_TEXT argv0 =
     APP_NAME @ '': enforce power usage policies'' @ [CHR 0x0A] @
     [CHR 0x0A] @ ''USAGE'' @ [CHR 0x0A] @
     argv0 @ '' OPTIONS'' @ [CHR 0x0A] @
     [CHR 0x0A] @ ''OPTIONS'' @ [CHR 0x0A] @
     [CHR 0x09] @ ''-h --help    Show this help.'' @ [CHR 0x0A] @
     [CHR 0x09] @ ''-c --testcase-count  Print out the number of runtime tests.'' @ [CHR 0x0A] @
     [CHR 0x09] @ ''-t --run-test TEST   Run a runtime test by given its numerical ID.'' @ [CHR 0x0A] @
     [CHR 0x0A]"

datatype opt = OptHelp | OptTest int int | OptCount | OptIllegal | OptMissingArg

definition ERANGE :: int where
  "ERANGE = 34"

text \<open>
  \<open>OptTest\<close> has the number of the test, a \<open>long\<close> converted to \<open>int\<close>, and the value of \<open>errno\<close>
  after the conversion. Nothing sets \<open>errno\<close> to 0 before it, so a value left by an earlier
  call, \<open>errno0\<close>, is still there when \<^verbatim>\<open>strtol\<close> succeeds.
\<close>

fun opt_of :: "int \<Rightarrow> getopt_item \<Rightarrow> opt" where
  "opt_of errno0 (GoOpt c arg) =
     (if c = CHR ''h'' then OptHelp
      else if c = CHR ''t'' then
        (case arg of
           None \<Rightarrow> OptMissingArg
         | Some optarg \<Rightarrow>
             (case strtol10 optarg of (v, out_of_range) \<Rightarrow>
                OptTest (sint (of_int v :: u32)) (if out_of_range then ERANGE else errno0)))
      else OptCount)"
| "opt_of errno0 (GoIllegal c) = OptIllegal"
| "opt_of errno0 (GoMissing c) = OptMissingArg"

definition command_line :: "int \<Rightarrow> cstr list \<Rightarrow> opt list" where
  "command_line errno0 args = map (opt_of errno0) (getopt_all optstring [] args)"

text \<open>\<open>Done None\<close> when the options leave the program to go on, \<open>Done (Some r)\<close> when \<open>main\<close> returns.\<close>

fun main_options :: "int outcome option list \<Rightarrow> opt list \<Rightarrow> int option outcome" where
  "main_options tests [] = Done None"
| "main_options tests (OptHelp # os) = Exited 0"
| "main_options tests (OptTest testcase errno # os) =
     (if errno \<noteq> 0 then Done (Some 1) else obind (run_testcase tests (of_int testcase)) (\<lambda>r. Done (Some r)))"
| "main_options tests (OptCount # os) = obind (testcase_count tests) (\<lambda>_. Exited 0)"
| "main_options tests (OptIllegal # os) = Exited 1"
| "main_options tests (OptMissingArg # os) = Exited 1"

text \<open>What the options print on the standard output.\<close>

fun option_output :: "int outcome option list \<Rightarrow> cstr \<Rightarrow> opt list \<Rightarrow> cstr outcome" where
  "option_output tests argv0 (OptHelp # os) = Done (HELP_TEXT argv0)"
| "option_output tests argv0 (OptCount # os) =
     obind (testcase_count tests) (\<lambda>n. Done (dec_int (int_of_u32 n) @ [CHR 0x0A]))"
| "option_output tests argv0 os = Done []"

section \<open>Lemmas on the tests\<close>

text \<open>
  The collection of runtime tests has no NULL at its end, so counting the tests reads past
  the array, and no test can be run.
\<close>

lemma runtime_tests_unterminated:
  "testcase_count (RUNTIME_TESTS a b) = Fault OutOfBounds"
  "run_testcase (RUNTIME_TESTS a' b') k = Fault OutOfBounds"
  by (simp_all add: testcase_count_def run_testcase_def RUNTIME_TESTS_def)

text \<open>With the NULL, the last test would still be out of reach.\<close>

lemma runtime_tests_minus_one:
  "run_testcase (RUNTIME_TESTS a b @ [None]) 0 = a" "run_testcase (RUNTIME_TESTS a b @ [None]) 1 = Done 1"
  by (simp_all add: run_testcase_def testcase_count_def RUNTIME_TESTS_def)

text \<open>
  A collection that ends with a NULL: every test but the last can be run, and every other number
  is refused.
\<close>

lemma testcase_count_terminated:
  "testcase_count (map Some ts @ [None]) = Done (of_nat (length ts) - 1)"
proof -
  have "first_index (\<lambda>t. t = None) (map Some ts @ [None]) = Some (length ts)"
    by (intro first_index_SomeI) (auto simp: nth_append)
  then show ?thesis by (simp add: testcase_count_def)
qed

lemma uint_of_int_u32: "uint (of_int x :: u32) = x mod 2 ^ 32"
  by (simp add: unsigned_of_int take_bit_eq_mod)

lemma run_testcase_terminated:
  assumes "ts \<noteq> []" "length ts \<le> 2 ^ 31" "- (2 ^ 31) \<le> k" "k < 2 ^ 31"
  shows "run_testcase (map Some ts @ [None]) (of_int k) =
    (if 0 \<le> k \<and> k < int (length ts) - 1 then ts ! nat k else Done 1)"
proof -
  let ?n = "of_nat (length ts) - 1 :: u32"
  have n: "uint ?n = int (length ts) - 1"
  proof -
    have "?n = of_int (int (length ts) - 1)" by simp
    then have "uint ?n = (int (length ts) - 1) mod 2 ^ 32" by (simp only: uint_of_int_u32)
    moreover have "0 \<le> int (length ts) - 1" "int (length ts) - 1 < 2 ^ 32"
      using assms(1,2) by (simp_all add: Suc_le_eq flip: length_greater_0_conv)
    ultimately show ?thesis by simp
  qed
  have k: "uint (of_int k :: u32) = (if 0 \<le> k then k else k + 2 ^ 32)"
  proof -
    have "uint (of_int k :: u32) = k mod 2 ^ 32" by (rule uint_of_int_u32)
    moreover have "k mod 2 ^ 32 = k + 2 ^ 32" if "k < 0"
    proof -
      have "(k + 2 ^ 32) mod 2 ^ 32 = k + 2 ^ 32" using that assms(3) by (intro mod_pos_pos_trivial) simp_all
      then show ?thesis by (simp only: mod_add_self2)
    qed
    ultimately show ?thesis using assms(4) by simp
  qed
  have "?n \<le> of_int k \<longleftrightarrow> \<not> (0 \<le> k \<and> k < int (length ts) - 1)"
    unfolding word_le_def n k using assms(2,3) by auto
  moreover have "unat (of_int k :: u32) = nat k" if "0 \<le> k"
    using k that by (simp add: unat_eq_nat_uint)
  ultimately show ?thesis
    by (auto simp: run_testcase_def testcase_count_terminated nth_append)
qed

section \<open>Lemmas on the command line\<close>

lemma strtol10_dec_int:
  assumes "- (2 ^ 63) \<le> k" "k < 2 ^ 63"
  shows "strtol10 (dec_int k) = (k, False)"
  using scan_number_dec_int [of "[]" "[]" k] assms by (simp add: strtol10_def ends_number_def Let_def)

lemma strtol10_zero: "strtol10 ''0'' = (0, False)"
  by (simp add: strtol10_def scan_number_def scan_sign_def is_space_def is_digit_def digits_val_def)

lemma opt_spec_optstring [simp]:
  "opt_spec optstring (CHR ''t'') = Some True" "opt_spec optstring (CHR ''h'') = Some False"
  "opt_spec optstring (CHR ''c'') = Some False"
  by (simp_all add: optstring_def)

lemma getopt_no_options:
  "(\<And>a. a \<in> set args \<Longrightarrow> hd a \<noteq> CHR ''-'') \<Longrightarrow> getopt_all optstring [] args = []"
  by (induction args) (auto simp: list.set_intros)

lemma command_line_Nil [simp]: "command_line errno0 [] = []"
  by (simp add: command_line_def)

lemma command_line_no_options [simp]:
  "(\<And>a. a \<in> set args \<Longrightarrow> hd a \<noteq> CHR ''-'') \<Longrightarrow> command_line errno0 args = []"
  by (simp add: command_line_def getopt_no_options)

lemma dec_int_not_Nil [simp]: "dec_int k \<noteq> []"
  by (simp add: dec_int_def)

lemma sint_of_int_u32: "- (2 ^ 31) \<le> k \<Longrightarrow> k < 2 ^ 31 \<Longrightarrow> sint (of_int k :: u32) = k"
  by (simp add: signed_of_int signed_take_bit_int_eq_self)

text \<open>
  For every \<open>int\<close> the decimal number, as an argument of its own or joined to the option \<^verbatim>\<open>-t\<close>, is
  read back exactly; and arguments without a dash in front are no options.
\<close>

lemma test_option_read:
  assumes "- (2 ^ 31) \<le> k" "k < 2 ^ 31" "\<forall>a \<in> set args. hd a \<noteq> CHR ''-''"
  shows "command_line errno0 (''-t'' # dec_int k # args) = [OptTest k errno0]"
    "command_line errno0 ((''-t'' @ dec_int k) # args) = [OptTest k errno0]"
proof -
  have "strtol10 (dec_int k) = (k, False)" using assms(1,2) by (intro strtol10_dec_int) simp_all
  then show "command_line errno0 (''-t'' # dec_int k # args) = [OptTest k errno0]"
    "command_line errno0 ((''-t'' @ dec_int k) # args) = [OptTest k errno0]"
    using assms getopt_no_options [of args] sint_of_int_u32 [OF assms(1,2)] by (simp_all add: command_line_def)
qed

text \<open>
  What the option \<^verbatim>\<open>-t\<close> accepts besides: an argument that is no number at all selects test 0,
  a number that is too large for an \<open>int\<close> selects a test modulo 2 to the 32, and an \<open>errno\<close> left by
  an earlier call rejects every argument.
\<close>

lemma test_option_accepts_anything:
  assumes "scan_number a = None" "2 ^ 31 \<le> n" "n < 2 ^ 63" "errno0 \<noteq> 0"
  shows "main_options tests (command_line 0 [''-t'', a]) = main_options tests (command_line 0 [''-t'', ''0'']) \<and>
    main_options tests (command_line 0 [''-t'', dec n]) = obind (run_testcase tests (of_nat n)) (\<lambda>r. Done (Some r)) \<and>
    main_options tests (command_line errno0 [''-t'', dec_int k]) = Done (Some 1)"
proof -
  have none: "strtol10 a = (0, False)" using assms(1) by (simp add: strtol10_def)
  have "strtol10 (dec_int (int n)) = (int n, False)"
    using assms(3) by (intro strtol10_dec_int) (simp_all add: zless_nat_eq_int_zless)
  then have n: "strtol10 (dec n) = (int n, False)" by (simp add: dec_int_def)
  have "(if out then ERANGE else errno0) \<noteq> 0" for out using assms(4) by (simp add: ERANGE_def)
  then show ?thesis using strtol10_zero none n by (simp add: command_line_def split: prod.split)
qed

lemma test_option_accepts_anything_example:
  "main_options (RUNTIME_TESTS (Done 5) (Done 6) @ [None]) (command_line 0 [''-t'', ''all'']) = Done (Some 5) \<and>
   main_options (RUNTIME_TESTS (Done 5) (Done 6) @ [None]) (command_line 0 [''-t'', dec 4294967296]) = Done (Some 5)"
proof -
  let ?tests = "RUNTIME_TESTS (Done 5) (Done 6) @ [None]"
  have all: "scan_number ''all'' = None" by (simp add: scan_number_def scan_sign_def is_space_def is_digit_def)
  have "(of_nat 4294967296 :: u32) = 0" by simp
  with test_option_accepts_anything [OF all, of 4294967296 1 ?tests 0] strtol10_zero
  show ?thesis by (simp add: runtime_tests_minus_one command_line_def del: of_nat_numeral)
qed

end
