(* ===== verification/Sunneed_Drivers.thy ===== *)
theory Sunneed_Drivers
  imports Sunneed_Prelude
begin

text \<open>
  The two driver threads of \<^verbatim>\<open>src/src/sunneed_proc.c\<close> and the exit handler of
  \<^verbatim>\<open>src/src/sunneed_core.c\<close>.

  A driver thread forks; its child redirects the standard input to a named pipe and executes
  the driver. The child is modelled on the table of its open descriptors, with the answers of
  the system calls that can fail for reasons outside of it as arguments. Both children run the
  exit handler of the daemon when they fail, so the signals it sends are part of the result.

  \<open>driver_step\<close> interleaves the two threads with the ends of the children: each thread forks
  once and then calls \<^verbatim>\<open>wait\<close>, which returns when any child of the daemon has ended.
\<close>

section \<open>The exit handler\<close>

definition SIGTERM :: int where
  "SIGTERM = 15"

record driver_pids =
  sunneed_stepper_driver_pid :: int
  sunneed_camera_driver_pid :: int

text \<open>
  The calls of \<^verbatim>\<open>kill\<close>, in order. The daemon installs no handler for the signal TERM, so a call
  for the process identifier 0, which signals the group of the caller, ends the caller too; a
  call for -1 signals every process but the caller.
\<close>

definition handle_exit :: "driver_pids \<Rightarrow> (int \<times> int) list" where
  "handle_exit pids =
     (let stepper = (sunneed_stepper_driver_pid pids, SIGTERM); camera = (sunneed_camera_driver_pid pids, SIGTERM)
      in if sunneed_stepper_driver_pid pids = 0 then [stepper] else [stepper, camera])"

section \<open>The driver threads\<close>

type_synonym fd_table = "int \<Rightarrow> cstr option"

definition sys_close :: "int \<Rightarrow> fd_table \<Rightarrow> int \<times> fd_table" where
  "sys_close fd fds = (if fds fd = None then (-1, fds) else (0, fds(fd := None)))"

definition sys_dup2 :: "int \<Rightarrow> int \<Rightarrow> fd_table \<Rightarrow> int \<times> fd_table" where
  "sys_dup2 old new fds = (if fds old = None then (-1, fds) else (new, fds(new := fds old)))"

text \<open>An \<open>open\<close> that returns the descriptor \<open>fd\<close>, or -1.\<close>

definition fds_open :: "cstr \<Rightarrow> int \<Rightarrow> fd_table \<Rightarrow> fd_table" where
  "fds_open path fd fds = (if fd = -1 then fds else fds(fd := Some path))"

record driver_env =
  rv_fork :: int
  rv_mkfifo :: int
  rv_chmod :: int
  rv_open :: int
  rv_open_again :: int
  exec_ok :: bool

datatype driver_end =
    Executes cstr fd_table
  | Exits int "(int \<times> int) list"
  | ParentWaits

definition child_exit :: "driver_pids \<Rightarrow> driver_end" where
  "child_exit pids = Exits 1 (handle_exit pids)"

definition redirect_stdin :: "driver_env \<Rightarrow> driver_pids \<Rightarrow> cstr \<Rightarrow> int \<Rightarrow> fd_table \<Rightarrow> driver_end" where
  "redirect_stdin env pids executable_path new_stdin fds =
     (case sys_close 0 fds of (r1, fds1) \<Rightarrow>
        if r1 = -1 then child_exit pids
        else case sys_dup2 new_stdin 0 fds1 of (r2, fds2) \<Rightarrow>
          if r2 = -1 then child_exit pids
          else case sys_close new_stdin fds2 of (r3, fds3) \<Rightarrow>
            if r3 = -1 then child_exit pids
            else if exec_ok env then Executes executable_path fds3
            else child_exit pids)"

definition sunneed_stepperMotor_driver :: "driver_env \<Rightarrow> driver_pids \<Rightarrow> fd_table \<Rightarrow> driver_end \<times> driver_pids" where
  "sunneed_stepperMotor_driver env pids fds =
     (let path = ''/tmp/stepper'';
          executable_path = ''ext/SunneeD_dev_drivers/StepperDriver/stepper_driver'';
          pids' = pids\<lparr>sunneed_stepper_driver_pid := rv_fork env\<rparr>
      in (if rv_fork env = 0
          then (if rv_mkfifo env = -1
                then (if rv_open env = -1 then child_exit pids'
                      else redirect_stdin env pids' executable_path (rv_open env) (fds_open path (rv_open env) fds))
                else (if rv_open env = -1 then child_exit pids'
                      else redirect_stdin env pids' executable_path (rv_open env) (fds_open path (rv_open env) fds)))
          else ParentWaits, pids'))"

definition sunneed_camera_driver :: "driver_env \<Rightarrow> driver_pids \<Rightarrow> fd_table \<Rightarrow> driver_end \<times> driver_pids" where
  "sunneed_camera_driver env pids fds =
     (let path = ''/tmp/camera'';
          executable_path = ''run_PyDriver'';
          pids' = pids\<lparr>sunneed_camera_driver_pid := rv_fork env\<rparr>
      in (if rv_fork env = 0
          then (if rv_open env = -1
                then (if rv_mkfifo env = -1 then child_exit pids'
                      else if rv_chmod env = -1 then child_exit pids'
                      else redirect_stdin env pids' executable_path (rv_open_again env)
                             (fds_open path (rv_open_again env) fds))
                else redirect_stdin env pids' executable_path (rv_open env) (fds_open path (rv_open env) fds))
          else ParentWaits, pids'))"

section \<open>The threads and their children\<close>

datatype driver = Stepper | Camera

datatype driver_thread = ToFork | Waiting | Ended

text \<open>
  Besides the variables of the daemon and the children of the daemon, the state records what
  has happened: what \<^verbatim>\<open>fork\<close> has returned to each thread, and which processes were waited for.
  No step depends on these two fields.
\<close>

record driver_system =
  dr_pids :: driver_pids
  dr_thread :: "driver \<Rightarrow> driver_thread"
  dr_running :: "int set"
  dr_zombies :: "int set"
  dr_forked :: "driver \<Rightarrow> int option"
  dr_waited :: "int set"

definition drivers_static :: driver_system where
  "drivers_static = \<lparr>dr_pids = \<lparr>sunneed_stepper_driver_pid = 0, sunneed_camera_driver_pid = 0\<rparr>,
     dr_thread = (\<lambda>_. ToFork), dr_running = {}, dr_zombies = {}, dr_forked = (\<lambda>_. None), dr_waited = {}\<rparr>"

fun driver_main :: "driver \<Rightarrow> driver_env \<Rightarrow> driver_pids \<Rightarrow> fd_table \<Rightarrow> driver_end \<times> driver_pids" where
  "driver_main Stepper = sunneed_stepperMotor_driver"
| "driver_main Camera = sunneed_camera_driver"

fun pid_of :: "driver \<Rightarrow> driver_pids \<Rightarrow> int" where
  "pid_of Stepper pids = sunneed_stepper_driver_pid pids"
| "pid_of Camera pids = sunneed_camera_driver_pid pids"

definition dr_children :: "driver_system \<Rightarrow> int set" where
  "dr_children s = dr_running s \<union> dr_zombies s"

inductive driver_step :: "driver_system \<Rightarrow> driver_system \<Rightarrow> bool" where
  forks: "dr_thread s k = ToFork \<Longrightarrow> driver_main k env (dr_pids s) fds = (ParentWaits, pids) \<Longrightarrow>
    0 < rv_fork env \<Longrightarrow> rv_fork env \<notin> dr_children s \<Longrightarrow>
    driver_step s (s\<lparr>dr_pids := pids, dr_thread := (dr_thread s)(k := Waiting),
      dr_running := insert (rv_fork env) (dr_running s), dr_forked := (dr_forked s)(k := Some (rv_fork env))\<rparr>)"
| fork_fails: "dr_thread s k = ToFork \<Longrightarrow> driver_main k env (dr_pids s) fds = (ParentWaits, pids) \<Longrightarrow>
    rv_fork env = -1 \<Longrightarrow>
    driver_step s (s\<lparr>dr_pids := pids, dr_thread := (dr_thread s)(k := Waiting),
      dr_forked := (dr_forked s)(k := Some (rv_fork env))\<rparr>)"
| child_ends: "p \<in> dr_running s \<Longrightarrow>
    driver_step s (s\<lparr>dr_running := dr_running s - {p}, dr_zombies := insert p (dr_zombies s)\<rparr>)"
| wait_returns: "dr_thread s k = Waiting \<Longrightarrow> p \<in> dr_zombies s \<Longrightarrow>
    driver_step s (s\<lparr>dr_thread := (dr_thread s)(k := Ended), dr_zombies := dr_zombies s - {p},
      dr_waited := insert p (dr_waited s)\<rparr>)"
| no_child: "dr_thread s k = Waiting \<Longrightarrow> dr_children s = {} \<Longrightarrow>
    driver_step s (s\<lparr>dr_thread := (dr_thread s)(k := Ended)\<rparr>)"

section \<open>Properties of the driver threads\<close>

lemma redirect_stdin_ok:
  assumes "fds 0 \<noteq> None" "new \<noteq> 0" "fds new = Some path" "exec_ok env"
  shows "redirect_stdin env pids p new fds = Executes p (fds(0 := Some path, new := None))"
  using assms by (auto simp: redirect_stdin_def sys_close_def sys_dup2_def)

lemma redirect_stdin_exits:
  assumes "redirect_stdin env pids p new fds = Exits c sigs"
  shows "c = 1 \<and> sigs = handle_exit pids"
  using assms by (auto simp: redirect_stdin_def child_exit_def split: prod.splits if_splits)

text \<open>
  The child that runs a driver. When the named pipe can be opened and the standard input
  of the daemon is open, the stepper driver and the camera driver are executed with the named
  pipe of their device as standard input and all other descriptors as in the daemon.
\<close>

lemma driver_children_redirect:
  assumes "rv_fork env = 0" "exec_ok env" "fds 0 \<noteq> None"
    and "rv_open env \<noteq> -1" "rv_open env \<noteq> 0" "fds (rv_open env) = None"
  shows "fst (sunneed_stepperMotor_driver env pids fds) =
      Executes ''ext/SunneeD_dev_drivers/StepperDriver/stepper_driver'' (fds(0 := Some ''/tmp/stepper'')) \<and>
    fst (sunneed_camera_driver env pids fds) = Executes ''run_PyDriver'' (fds(0 := Some ''/tmp/camera''))"
proof -
  have "(fds(rv_open env := Some path))(0 := Some path, rv_open env := None) = fds(0 := Some path)" for path :: cstr
    using assms(5,6) by (auto simp: fun_eq_iff)
  then show ?thesis
    using assms by (simp add: sunneed_stepperMotor_driver_def sunneed_camera_driver_def Let_def fds_open_def
        redirect_stdin_ok del: fun_upd_apply fun_upd_idem_iff) (simp add: redirect_stdin_ok)
qed

lemma driver_children_redirect_example:
  "fst (sunneed_stepperMotor_driver
      \<lparr>rv_fork = 0, rv_mkfifo = 0, rv_chmod = 0, rv_open = 5, rv_open_again = -1, exec_ok = True\<rparr>
      \<lparr>sunneed_stepper_driver_pid = 0, sunneed_camera_driver_pid = 0\<rparr> [0 \<mapsto> ''tty'', 1 \<mapsto> ''tty'']) =
   Executes ''ext/SunneeD_dev_drivers/StepperDriver/stepper_driver'' [0 \<mapsto> ''/tmp/stepper'', 1 \<mapsto> ''tty'']"
proof -
  let ?env = "\<lparr>rv_fork = 0, rv_mkfifo = 0, rv_chmod = 0, rv_open = 5, rv_open_again = -1, exec_ok = True\<rparr>"
  have "[0 :: int \<mapsto> ''tty'', 1 \<mapsto> ''tty''](0 \<mapsto> ''/tmp/stepper'') = [0 \<mapsto> ''/tmp/stepper'', 1 \<mapsto> ''tty'']"
    by (auto simp: fun_eq_iff)
  then show ?thesis
    using driver_children_redirect [of ?env "[0 \<mapsto> ''tty'', 1 \<mapsto> ''tty'']"
        "\<lparr>sunneed_stepper_driver_pid = 0, sunneed_camera_driver_pid = 0\<rparr>"] by simp
qed

text \<open>
  A driver that cannot be started takes the daemon with it: the child leaves by \<open>exit\<close>,
  runs the exit handler of the daemon with the process identifier 0 that \<open>fork\<close> returned to
  it, and so sends the signal TERM to its whole process group, which is that of the daemon.
\<close>

lemma driver_failure_signals_group:
  assumes "fst (sunneed_stepperMotor_driver env pids fds) = Exits c sigs \<or>
    fst (sunneed_camera_driver env pids fds) = Exits c sigs"
  shows "c = 1 \<and> (0, SIGTERM) \<in> set sigs"
  using assms
proof
  assume "fst (sunneed_stepperMotor_driver env pids fds) = Exits c sigs"
  then show ?thesis
    by (auto simp: sunneed_stepperMotor_driver_def Let_def child_exit_def handle_exit_def
        dest!: redirect_stdin_exits split: if_splits)
next
  assume "fst (sunneed_camera_driver env pids fds) = Exits c sigs"
  then show ?thesis
    by (auto simp: sunneed_camera_driver_def Let_def child_exit_def handle_exit_def
        dest!: redirect_stdin_exits split: if_splits)
qed

lemma driver_failure_signals_group_example:
  "(0, SIGTERM) \<in> set (handle_exit \<lparr>sunneed_stepper_driver_pid = 0, sunneed_camera_driver_pid = 77\<rparr>)"
proof -
  let ?env = "\<lparr>rv_fork = 0, rv_mkfifo = 0, rv_chmod = 0, rv_open = -1, rv_open_again = -1, exec_ok = True\<rparr>"
  have "fst (sunneed_stepperMotor_driver ?env \<lparr>sunneed_stepper_driver_pid = 0, sunneed_camera_driver_pid = 77\<rparr> Map.empty)
      = Exits 1 (handle_exit \<lparr>sunneed_stepper_driver_pid = 0, sunneed_camera_driver_pid = 77\<rparr>)"
    by (simp add: sunneed_stepperMotor_driver_def child_exit_def Let_def)
  from driver_failure_signals_group [OF disjI1, OF this] show ?thesis by blast
qed

section \<open>The invariant of the driver threads\<close>

lemma driver_cases: "(\<forall>k. P k) \<longleftrightarrow> P Stepper \<and> P Camera"
  by (metis driver.exhaust)

lemma driver_main_parent:
  assumes "driver_main k env pids fds = (ParentWaits, pids')"
  shows "pid_of k pids' = rv_fork env \<and> (\<forall>j. j \<noteq> k \<longrightarrow> pid_of j pids' = pid_of j pids)"
  using assms
  by (cases k) (auto simp: driver_cases sunneed_stepperMotor_driver_def sunneed_camera_driver_def Let_def)

lemma driver_main_waits:
  "rv_fork env \<noteq> 0 \<Longrightarrow> \<exists>pids'. driver_main k env pids fds = (ParentWaits, pids')"
  by (cases k) (auto simp: sunneed_stepperMotor_driver_def sunneed_camera_driver_def Let_def)

text \<open>The threads that wait.\<close>

definition waiting :: "driver_system \<Rightarrow> driver set" where
  "waiting s = {k. dr_thread s k = Waiting}"

text \<open>
  The recorded process identifiers are 0 until \<^verbatim>\<open>fork\<close> has returned and then what it returned;
  every process that was forked is a child still or was waited for; and there are no more
  children than waiting threads.
\<close>

definition driver_inv :: "driver_system \<Rightarrow> bool" where
  "driver_inv s \<longleftrightarrow>
     (\<forall>k. dr_forked s k = None \<longleftrightarrow> dr_thread s k = ToFork) \<and>
     (\<forall>k. pid_of k (dr_pids s) = (case dr_forked s k of None \<Rightarrow> 0 | Some r \<Rightarrow> r)) \<and>
     (\<forall>k r. dr_forked s k = Some r \<longrightarrow> r = -1 \<or> 0 < r \<and> r \<in> dr_children s \<union> dr_waited s) \<and>
     (\<forall>p \<in> dr_children s. 0 < p \<and> (\<exists>k. p = pid_of k (dr_pids s))) \<and>
     dr_running s \<inter> dr_zombies s = {} \<and> card (dr_children s) \<le> card (waiting s)"

lemma driver_inv_static: "driver_inv drivers_static"
  by (simp add: driver_inv_def drivers_static_def dr_children_def driver_cases)

lemma finite_drivers [simp]: "finite (A :: driver set)"
proof -
  have "UNIV = {Stepper, Camera}" using driver.exhaust by blast
  then show ?thesis by (metis finite.simps finite_subset subset_UNIV)
qed

lemma driver_inv_finite: "driver_inv s \<Longrightarrow> finite (dr_children s)"
proof (rule finite_subset [of _ "range (\<lambda>k. pid_of k (dr_pids s))"])
  show "dr_children s \<subseteq> range (\<lambda>k. pid_of k (dr_pids s))" if "driver_inv s"
    using that by (auto simp: driver_inv_def)
qed simp

lemma waiting_update [simp]:
  "waiting (s\<lparr>dr_thread := t\<rparr>) = {k. t k = Waiting}" "waiting (s\<lparr>dr_pids := a\<rparr>) = waiting s"
  "waiting (s\<lparr>dr_running := b\<rparr>) = waiting s" "waiting (s\<lparr>dr_zombies := c\<rparr>) = waiting s"
  "waiting (s\<lparr>dr_forked := h\<rparr>) = waiting s" "waiting (s\<lparr>dr_waited := w\<rparr>) = waiting s"
  by (simp_all add: waiting_def)

lemma card_waits: "dr_thread s k = ToFork \<Longrightarrow>
    card {j. ((dr_thread s)(k := Waiting)) j = Waiting} = Suc (card (waiting s))"
proof -
  assume "dr_thread s k = ToFork"
  then have "{j. ((dr_thread s)(k := Waiting)) j = Waiting} = insert k (waiting s)" "k \<notin> waiting s"
    by (auto simp: waiting_def)
  then show ?thesis by simp
qed

lemma card_ends: "dr_thread s k = Waiting \<Longrightarrow>
    Suc (card {j. ((dr_thread s)(k := Ended)) j = Waiting}) = card (waiting s)"
proof -
  assume "dr_thread s k = Waiting"
  then have "{j. ((dr_thread s)(k := Ended)) j = Waiting} = waiting s - {k}" "k \<in> waiting s"
    by (auto simp: waiting_def)
  then show ?thesis by (metis card_Suc_Diff1 finite_drivers)
qed

text \<open>A step that only changes the threads and takes children away keeps the recorded identifiers.\<close>

lemma driver_inv_keep:
  assumes "driver_inv s" "dr_pids s' = dr_pids s" "dr_forked s' = dr_forked s"
    and "\<And>k. dr_thread s' k = ToFork \<longleftrightarrow> dr_thread s k = ToFork"
    and "dr_children s' \<subseteq> dr_children s" "dr_children s \<union> dr_waited s \<subseteq> dr_children s' \<union> dr_waited s'"
    and "dr_running s' \<inter> dr_zombies s' = {}" "card (dr_children s') \<le> card (waiting s')"
  shows "driver_inv s'"
proof -
  have "r = -1 \<or> 0 < r \<and> r \<in> dr_children s' \<union> dr_waited s'" if "dr_forked s' k = Some r" for k r
  proof -
    have "r = -1 \<or> 0 < r \<and> r \<in> dr_children s \<union> dr_waited s" using that assms(1,3) by (simp add: driver_inv_def)
    with assms(6) show ?thesis by blast
  qed
  then show ?thesis using assms unfolding driver_inv_def by auto
qed

lemma driver_inv_fork:
  assumes "driver_inv s" "dr_thread s k = ToFork" "driver_main k env (dr_pids s) fds = (ParentWaits, pids)"
    and "rv_fork env = -1 \<or> 0 < rv_fork env" "dr_pids s' = pids" "dr_thread s' = (dr_thread s)(k := Waiting)"
    and "dr_forked s' = (dr_forked s)(k := Some (rv_fork env))" "dr_waited s' = dr_waited s"
    and "dr_children s' = (if 0 < rv_fork env then insert (rv_fork env) (dr_children s) else dr_children s)"
    and "dr_running s' \<inter> dr_zombies s' = {}" "card (dr_children s') \<le> card (waiting s')"
  shows "driver_inv s'"
proof -
  have P: "pid_of k pids = rv_fork env" "\<And>j. j \<noteq> k \<Longrightarrow> pid_of j pids = pid_of j (dr_pids s)"
    using driver_main_parent [OF assms(3)] by auto
  have "0 < p \<and> (\<exists>j. p = pid_of j pids)" if "p \<in> dr_children s'" for p
  proof (cases "p = rv_fork env \<and> 0 < rv_fork env")
    case True
    with P(1) show ?thesis by metis
  next
    case False
    with that assms(9) have p: "p \<in> dr_children s" by (auto split: if_splits)
    with assms(1) obtain j where j: "0 < p" "p = pid_of j (dr_pids s)" by (auto simp: driver_inv_def)
    with assms(1,2) have "j \<noteq> k" by (auto simp: driver_inv_def split: option.splits)
    with P(2) j show ?thesis by metis
  qed
  moreover have "pid_of j (dr_pids s') = (case dr_forked s' j of None \<Rightarrow> 0 | Some r \<Rightarrow> r)"
    "dr_forked s' j = None \<longleftrightarrow> dr_thread s' j = ToFork" for j
    using assms(1,5,6,7) P by (cases "j = k"; auto simp: driver_inv_def)+
  moreover have "r = -1 \<or> 0 < r \<and> r \<in> dr_children s' \<union> dr_waited s'" if "dr_forked s' j = Some r" for j r
    using that assms(1,4,7,8,9) by (cases "j = k") (auto simp: driver_inv_def)
  ultimately show ?thesis using assms(5,10,11) by (simp add: driver_inv_def)
qed

lemma driver_step_inv:
  assumes "driver_step s s'" "driver_inv s"
  shows "driver_inv s'"
  using assms
proof (induction rule: driver_step.induct)
  case (forks s k env fds pids)
  then show ?case
    using card_waits [OF forks(1)] driver_inv_finite [OF forks(5)]
    by (intro driver_inv_fork [OF forks(5,1,2)]) (auto simp: dr_children_def driver_inv_def)
next
  case (fork_fails s k env fds pids)
  then show ?case
    using card_waits [OF fork_fails(1)]
    by (intro driver_inv_fork [OF fork_fails(4,1,2)]) (auto simp: dr_children_def driver_inv_def)
next
  case (child_ends p s)
  then have "dr_children (s\<lparr>dr_running := dr_running s - {p}, dr_zombies := insert p (dr_zombies s)\<rparr>) = dr_children s"
    by (auto simp: dr_children_def)
  with child_ends show ?case by (intro driver_inv_keep [OF child_ends(2)]) (auto simp: driver_inv_def)
next
  case (wait_returns s k p)
  let ?s = "s\<lparr>dr_thread := (dr_thread s)(k := Ended), dr_zombies := dr_zombies s - {p},
      dr_waited := insert p (dr_waited s)\<rparr>"
  have "p \<notin> dr_running s" "p \<in> dr_children s"
    using wait_returns(2,3) by (auto simp: driver_inv_def dr_children_def)
  then have "dr_children ?s = dr_children s - {p}" by (auto simp: dr_children_def)
  with \<open>p \<in> dr_children s\<close> have "Suc (card (dr_children ?s)) = card (dr_children s)"
    using driver_inv_finite [OF wait_returns(3)] by (simp add: card_Suc_Diff1 del: card_Diff_insert)
  moreover have "card (dr_children s) \<le> card (waiting s)" "dr_running s \<inter> dr_zombies s = {}"
    using wait_returns(3) by (simp_all add: driver_inv_def)
  ultimately show ?case
    using card_ends [OF wait_returns(1)] wait_returns(1)
    by (intro driver_inv_keep [OF wait_returns(3)]) (auto simp: dr_children_def)
next
  case (no_child s k)
  then show ?case by (intro driver_inv_keep [OF no_child(3)]) (auto simp: dr_children_def)
qed

end
