(* ===== verification/Sunneed_Core.thy ===== *)
theory Sunneed_Core
  imports Sunneed_Monitor Sunneed_Power Sunneed_Listener Sunneed_Options Sunneed_Drivers
begin

text \<open>
  The main program: \<^verbatim>\<open>src/src/sunneed_core.c\<close>, with the worker threads it starts. The command
  line is in \<open>Sunneed_Options\<close>, the driver threads and the exit handler in \<open>Sunneed_Drivers\<close>.
\<close>

section \<open>Worker threads\<close>

datatype worker = ProcMonitor | QuantumWorker | StepperMotorDriver | CameraDriver

definition worker_thread_functions :: "worker option list" where
  "worker_thread_functions =
     [Some ProcMonitor, Some QuantumWorker, Some StepperMotorDriver, Some CameraDriver, None]"

text \<open>\<open>create i\<close> is what \<^verbatim>\<open>pthread_create\<close> returns for the thread \<open>i\<close>; the threads started.\<close>

definition spawn_worker_threads :: "(nat \<Rightarrow> int) \<Rightarrow> (int \<times> worker list) outcome" where
  "spawn_worker_threads create =
     (case first_index (\<lambda>w. w = None) worker_thread_functions of
        None \<Rightarrow> Fault OutOfBounds
      | Some worker_thread_count \<Rightarrow>
          (case first_index (\<lambda>i. create i \<noteq> 0) [0..<worker_thread_count] of
             Some i \<Rightarrow> Done (1, map the (take i worker_thread_functions))
           | None \<Rightarrow> Done (0, map the (take worker_thread_count worker_thread_functions))))"

section \<open>The main program\<close>

record daemon =
  dm_server :: server_state
  dm_power :: power_state
  dm_pip :: "sunneed_pip option"
  dm_drv :: driver_system
  dm_workers :: "worker list"
  dm_atexit :: bool

definition daemon_static :: daemon where
  "daemon_static = \<lparr>dm_server = \<lparr>sv_proc = proc_static, sv_dev = device_static, sv_locked = locked_file_paths_static,
       dummy_path_fd_map = dummy_path_fd_map_static, sv_calls = []\<rparr>,
     dm_power = power_static, dm_pip = None,
     dm_drv = drivers_static, dm_workers = [], dm_atexit = False\<rparr>"

definition sunneed_init :: "daemon \<Rightarrow> daemon" where
  "sunneed_init d = d\<lparr>dm_atexit := True, dm_pip := Some pip_info\<rparr>"

record main_env =
  me_dlopen :: "cstr \<Rightarrow> module option"
  me_alloc :: "nat \<Rightarrow> bool"
  me_dir :: "cstr list option"
  me_pthread_create :: "nat \<Rightarrow> int"
  me_rep0_open :: int
  me_listen :: int
  me_received :: "received list"
  me_errno :: int

text \<open>
  \<open>main\<close>: the value it returns, \<open>None\<close> while the listener waits for messages, and the state.
  The messages handled by the listener are those of \<open>me_received\<close>; what the worker threads do
  meanwhile is in the transition system of \<open>Sunneed_System\<close>.
\<close>

definition main ::
    "nng \<Rightarrow> main_env \<Rightarrow> int outcome option list \<Rightarrow> cstr list \<Rightarrow> daemon \<Rightarrow> (int option \<times> daemon) outcome" where
  "main nng env tests args d =
     obind (main_options tests (command_line (me_errno env) args)) (\<lambda>r.
       case r of
         Some n \<Rightarrow> Done (Some n, d)
       | None \<Rightarrow>
           let d1 = sunneed_init d; sv = dm_server d1
           in obind (sunneed_load_devices (me_dlopen env) (me_alloc env) (me_dir env) (devices (sv_dev sv)) (sv_locked sv))
             (\<lambda>(ret, devs, lp).
                let d2 = d1\<lparr>dm_server := sv\<lparr>sv_dev := (sv_dev sv)\<lparr>devices := devs\<rparr>, sv_locked := lp\<rparr>\<rparr>
                in if ret \<noteq> 0 then Done (Some 0, d2)
                   else obind (spawn_worker_threads (me_pthread_create env)) (\<lambda>(ret, ws).
                     let d3 = d2\<lparr>dm_workers := ws\<rparr>
                     in if ret \<noteq> 0 then Done (Some 0, d3)
                        else obind (sunneed_listen nng (me_rep0_open env) (me_listen env) (me_received env) (dm_server d3))
                          (\<lambda>(replies, ret, sv'). Done (map_option (\<lambda>_. 0) ret, d3\<lparr>dm_server := sv'\<rparr>)))))"

text \<open>What happens when \<open>main\<close> returns or \<open>exit\<close> is called: the registered handler runs.\<close>

definition exit_signals :: "daemon \<Rightarrow> (int \<times> int) list" where
  "exit_signals d = (if dm_atexit d then handle_exit (dr_pids (dm_drv d)) else [])"

section \<open>Properties of \<open>main\<close>\<close>

lemma spawn_ok:
  "(\<And>i. create i = 0) \<Longrightarrow> spawn_worker_threads create =
     Done (0, [ProcMonitor, QuantumWorker, StepperMotorDriver, CameraDriver])"
  by (simp add: spawn_worker_threads_def worker_thread_functions_def first_index_None_iff upt_rec)

text \<open>
  \<open>main\<close> reports success whatever happened: when it returns after start-up, be it that no
  device could be loaded, that a thread could not be created, or that the listener failed,
  the value is 0.
\<close>

lemma main_returns_zero:
  assumes "main nng env tests [] d = Done (Some r, d')"
  shows "r = 0"
  using assms by (auto simp: main_def command_line_def Let_def split: prod.splits if_splits)



text \<open>
  Without a device directory the daemon crashes before it has started a thread: the loader
  closes the directory that it could not open.
\<close>

lemma no_device_directory_faults:
  assumes "me_dir env = None"
  shows "main nng env tests [] d = Fault NullDeref"
  using assms by (simp add: main_def command_line_def sunneed_load_devices_def Let_def)

text \<open>
  A daemon whose \<open>main\<close> returns before a driver was started signals its own process group. The
  exit handler is registered by then and the process identifiers of the drivers are 0, so the
  signal TERM goes to the daemon and to every process of its group.
\<close>

lemma early_return_signals_group:
  assumes "main nng env tests [] daemon_static = Done (Some r, d)"
  shows "exit_signals d = [(0, SIGTERM)]"
  using assms
  by (auto simp: main_def command_line_def Let_def sunneed_init_def daemon_static_def exit_signals_def
      drivers_static_def handle_exit_def split: prod.splits if_splits)

section \<open>Start-up\<close>

definition startup_ok :: "main_env \<Rightarrow> bool" where
  "startup_ok env \<longleftrightarrow>
     (\<forall>p m. me_dlopen env p = Some m \<longrightarrow> module_ok m) \<and>
     (case me_dir env of
        None \<Rightarrow> False
      | Some es \<Rightarrow> (\<forall>e \<in> set es. length e \<le> 50) \<and> length es \<le> MAX_DEVICES \<and>
          (\<Sum>e\<leftarrow>es. module_paths (me_dlopen env (''build/device/'' @ e))) \<le> MAX_LOCKED_FILES) \<and>
     (\<forall>i. me_pthread_create env i = 0) \<and> me_rep0_open env = 0 \<and> me_listen env = 0"

lemma static_pipes_ok: "nng_ok nng \<Longrightarrow> pipes_ok nng proc_static"
  by (auto simp: pipes_ok_def proc_static_def nng_ok_def int_of_u32_def)

lemma main_start:
  assumes "nng_ok nng" "startup_ok env" "me_received env = []"
  shows "\<exists>d. main nng env tests [] daemon_static = Done (None, d) \<and>
    server_ok nng (dm_server d) \<and> sessions (sv_proc (dm_server d)) = {} \<and> open_table (dm_server d) [] \<and>
    sv_locked (dm_server d) = lp_of (concat (map locked_by (devices (sv_dev (dm_server d))))) \<and>
    tenants (sv_proc (dm_server d)) = tenants proc_static \<and> dm_power d = power_static \<and>
    cpu_usage (sv_proc (dm_server d)) = cpu_usage proc_static \<and>
    dm_workers d = [ProcMonitor, QuantumWorker, StepperMotorDriver, CameraDriver] \<and>
    dm_drv d = drivers_static \<and> dm_atexit d \<and>
    length (devices (sv_dev (dm_server d))) = MAX_DEVICES \<and> dummy_map (sv_dev (dm_server d)) = dummy_map device_static \<and>
    length (concat (map locked_by (devices (sv_dev (dm_server d))))) \<le> MAX_LOCKED_FILES \<and>
    sv_calls (dm_server d) = [] \<and>
    sunneed_load_devices (me_dlopen env) (me_alloc env) (me_dir env) (devices device_static) locked_file_paths_static =
      Done (0, devices (sv_dev (dm_server d)), sv_locked (dm_server d))"
proof -
  obtain es where es: "me_dir env = Some es" using assms(2) by (auto simp: startup_ok_def split: option.splits)
  obtain devs lp where ld: "sunneed_load_devices (me_dlopen env) (me_alloc env) (Some es)
      (devices device_static) locked_file_paths_static = Done (0, devs, lp)"
    using load_devices_Done [of "me_dlopen env" es "me_alloc env"] assms(2) es by (auto simp: startup_ok_def)
  note L = load_devices_lists [OF ld]
  let ?sv = "\<lparr>sv_proc = init_tenant_pipes nng proc_static, sv_dev = device_static\<lparr>devices := devs\<rparr>,
      sv_locked = lp, dummy_path_fd_map = dummy_path_fd_map_static, sv_calls = []\<rparr>"
  note I = init_tenant_pipes_ok [OF assms(1) proc_static_ok fresh_proc_inactive(2) static_pipes_ok [OF assms(1)]]
  have "server_ok nng ?sv" using I(1,2) L by (simp add: server_ok_def dummy_path_fd_map_static_def)
  moreover have "open_table ?sv []" by (rule open_table_static) simp
  moreover have "tenants (init_tenant_pipes nng proc_static) = tenants proc_static"
    "cpu_usage (init_tenant_pipes nng proc_static) = cpu_usage proc_static"
    by (simp_all add: init_tenant_pipes_def)
  moreover have "main nng env tests [] daemon_static =
      Done (None, (sunneed_init daemon_static)\<lparr>dm_server := ?sv,
        dm_workers := [ProcMonitor, QuantumWorker, StepperMotorDriver, CameraDriver]\<rparr>)"
    using assms(2,3) es ld spawn_ok [of "me_pthread_create env"]
    by (simp add: main_def daemon_static_def sunneed_init_def startup_ok_def sunneed_listen_eq Let_def)
  ultimately show ?thesis using I(3) L es ld by (simp add: sunneed_init_def daemon_static_def del: length_concat)
qed

text \<open>
  C9. Starting the daemon. When the modules in the device directory are well-formed and the
  system calls succeed, \<open>main\<close> reaches the listener with no client registered, consistent
  tables, all four worker threads, and as the list for the clients exactly the paths that the
  loaded devices lock. The identifiers of the four tenants are all 0, since nothing calls
  \<open>sunneed_init_tenants\<close>.
\<close>

theorem main_reaches_listener:
  assumes "nng_ok nng" "startup_ok env" "me_received env = []"
  shows "\<exists>d. main nng env tests [] daemon_static = Done (None, d) \<and>
    server_ok nng (dm_server d) \<and> sessions (sv_proc (dm_server d)) = {} \<and>
    dm_workers d = [ProcMonitor, QuantumWorker, StepperMotorDriver, CameraDriver] \<and>
    sv_locked (dm_server d) = lp_of (concat (map locked_by (devices (sv_dev (dm_server d))))) \<and>
    (\<forall>t < MAX_TENANTS. tenant_id (tenants (sv_proc (dm_server d)) ! t) = 0)"
  using main_start [OF assms, of tests] by (auto simp: proc_static_def zero_tenant_def)

definition demo_main :: main_env where
  "demo_main = \<lparr>me_dlopen = build_device, me_alloc = (\<lambda>_. True), me_dir = Some build_device_dir,
     me_pthread_create = (\<lambda>_. 0), me_rep0_open = 0, me_listen = 0, me_received = [], me_errno = 0\<rparr>"

lemma demo_main_ok: "startup_ok demo_main"
  using build_device_dir_ok build_device_ok by (auto simp: startup_ok_def demo_main_def)

theorem main_reaches_listener_witness:
  "\<exists>d. main demo_nng demo_main [] [] daemon_static = Done (None, d) \<and> server_ok demo_nng (dm_server d) \<and>
     sessions (sv_proc (dm_server d)) = {} \<and> tenant_id (tenants (sv_proc (dm_server d)) ! 3) = 0"
  using main_reaches_listener [OF demo_nng_ok(1) demo_main_ok, of "[]"]
  by (auto simp: demo_main_def capacities)

end
