(* ===== verification/Sunneed_System.thy ===== *)
theory Sunneed_System
  imports Sunneed_Core
begin

text \<open>
  The running daemon as a transition system: the listener, the monitor thread and the quantum
  thread work on the same tenants, and here their operations interleave, each as one step. A
  state is reachable when it can arise from what \<open>main\<close> has set up by any sequence of
  messages, monitor passes, steps of the driver threads and ends and beginnings of quanta; each
  step is labelled with its activity. Steps that fault are not taken:
  the properties speak of the executions that are defined.
\<close>

section \<open>Steps\<close>

datatype activity = Message | Monitor_pass | Begin_quantum | Driver_thread | End_quantum

inductive daemon_act :: "nng \<Rightarrow> (procfs \<Rightarrow> bool) \<Rightarrow> activity \<Rightarrow> daemon \<Rightarrow> daemon \<Rightarrow> bool"
  for nng :: nng and fs_ok :: "procfs \<Rightarrow> bool" where
  message: "live_pipe nng pipe \<Longrightarrow> serve_message nng env pipe request (dm_server d) = Done (r, sv) \<Longrightarrow>
    daemon_act nng fs_ok Message d (d\<lparr>dm_server := sv\<rparr>)"
| monitor: "fs_ok fs \<Longrightarrow>
    sunneed_update_tenant_cpu_usage fs (pipe_initializer nng) (sv_proc (dm_server d)) = Done (0, p) \<Longrightarrow>
    daemon_act nng fs_ok Monitor_pass d (d\<lparr>dm_server := (dm_server d)\<lparr>sv_proc := p\<rparr>\<rparr>)"
| begin_quantum: "sunneed_quantum_begin reading now malloc (dm_power d) = Some (Done (ret, pw)) \<Longrightarrow>
    daemon_act nng fs_ok Begin_quantum d (d\<lparr>dm_power := pw\<rparr>)"
| driver: "driver_step (dm_drv d) drv \<Longrightarrow> daemon_act nng fs_ok Driver_thread d (d\<lparr>dm_drv := drv\<rparr>)"
| end_quantum: "sunneed_quantum_end (dm_power d) (tenants (sv_proc (dm_server d))) = Some (Done (ret, pw, ts)) \<Longrightarrow>
    daemon_act nng fs_ok End_quantum d (d\<lparr>dm_power := pw,
      dm_server := (dm_server d)\<lparr>sv_proc := (sv_proc (dm_server d))\<lparr>tenants := ts\<rparr>\<rparr>\<rparr>)"

definition daemon_step :: "nng \<Rightarrow> (procfs \<Rightarrow> bool) \<Rightarrow> daemon \<Rightarrow> daemon \<Rightarrow> bool" where
  "daemon_step nng fs_ok d d' \<longleftrightarrow> (\<exists>a. daemon_act nng fs_ok a d d')"

text \<open>
  \<open>fs_ok\<close> restricts what the monitor finds in the file system: \<open>\<lambda>_. True\<close> for no restriction,
  \<open>all_alive\<close> when the processes of all clients are there.
\<close>

inductive reachable :: "nng \<Rightarrow> main_env \<Rightarrow> (procfs \<Rightarrow> bool) \<Rightarrow> daemon \<Rightarrow> bool"
  for nng :: nng and env :: main_env and fs_ok :: "procfs \<Rightarrow> bool" where
  started: "main nng env tests [] daemon_static = Done (None, d) \<Longrightarrow> reachable nng env fs_ok d"
| step: "reachable nng env fs_ok d \<Longrightarrow> daemon_step nng fs_ok d d' \<Longrightarrow> reachable nng env fs_ok d'"

text \<open>The same with the activities that have led to the state.\<close>

inductive reachable_by :: "nng \<Rightarrow> main_env \<Rightarrow> (procfs \<Rightarrow> bool) \<Rightarrow> activity list \<Rightarrow> daemon \<Rightarrow> bool"
  for nng :: nng and env :: main_env and fs_ok :: "procfs \<Rightarrow> bool" where
  begun: "main nng env tests [] daemon_static = Done (None, d) \<Longrightarrow> reachable_by nng env fs_ok [] d"
| performed: "reachable_by nng env fs_ok acts d \<Longrightarrow> daemon_act nng fs_ok a d d' \<Longrightarrow>
    reachable_by nng env fs_ok (acts @ [a]) d'"

lemma reachable_by_iff: "reachable nng env fs_ok d \<longleftrightarrow> (\<exists>acts. reachable_by nng env fs_ok acts d)"
proof
  assume "reachable nng env fs_ok d"
  then show "\<exists>acts. reachable_by nng env fs_ok acts d"
    by (induction rule: reachable.induct) (auto simp: daemon_step_def intro: reachable_by.intros)
next
  assume "\<exists>acts. reachable_by nng env fs_ok acts d"
  then obtain acts where "reachable_by nng env fs_ok acts d" by blast
  then show "reachable nng env fs_ok d"
  proof (induction rule: reachable_by.induct)
    case (performed acts d a d')
    then show ?case using daemon_step_def reachable.step by blast
  qed (rule reachable.started)
qed

definition all_alive :: "procfs \<Rightarrow> bool" where
  "all_alive fs \<longleftrightarrow> (\<forall>p. fs_access fs p)"

text \<open>A contract for invariants of any such system.\<close>

locale step_system =
  fixes init :: "'s \<Rightarrow> bool"
    and step :: "'s \<Rightarrow> 's \<Rightarrow> bool"
    and inv :: "'s \<Rightarrow> bool"
  assumes init_inv: "init s \<Longrightarrow> inv s"
    and step_inv: "inv s \<Longrightarrow> step s s' \<Longrightarrow> inv s'"
begin

inductive reach :: "'s \<Rightarrow> bool" where
  first: "init s \<Longrightarrow> reach s"
| later: "reach s \<Longrightarrow> step s s' \<Longrightarrow> reach s'"

lemma reach_inv: "reach s \<Longrightarrow> inv s"
  by (induction rule: reach.induct) (auto intro: init_inv step_inv)

end

section \<open>What no operation on the registry changes\<close>

text \<open>No entry of the pipe table points outside the array of tenants.\<close>

definition pipes_in_range :: "proc_state \<Rightarrow> bool" where
  "pipes_in_range st \<longleftrightarrow> (\<forall>tp \<in> set (tenant_pipes st). \<forall>t. tp_tenant tp = Some t \<longrightarrow> t < length (tenants st))"

definition proc_frame :: "proc_state \<Rightarrow> proc_state \<Rightarrow> bool" where
  "proc_frame st st' \<longleftrightarrow>
     map tenant_id (tenants st') = map tenant_id (tenants st) \<and>
     map power_proportion (tenants st') = map power_proportion (tenants st) \<and>
     length (tenant_pipes st') = length (tenant_pipes st) \<and>
     (pipes_in_range st \<longrightarrow> pipes_in_range st')"

lemma range_usage [simp]: "pipes_in_range (st\<lparr>cpu_usage := c\<rparr>) = pipes_in_range st"
  by (simp add: pipes_in_range_def)

lemma registry_ok_in_range: "registry_ok st \<Longrightarrow> pipes_in_range st"
  by (auto simp: pipes_in_range_def registry_ok_def in_set_conv_nth)

lemma frame_length: "proc_frame st st' \<Longrightarrow> length (tenants st') = length (tenants st)"
  unfolding proc_frame_def by (metis length_map)

lemma range_update:
  "pipes_in_range st \<Longrightarrow> (\<And>t. tp_tenant e = Some t \<Longrightarrow> t < length (tenants st)) \<Longrightarrow>
   pipes_in_range (st\<lparr>tenant_pipes := (tenant_pipes st)[i := e]\<rparr>)"
  by (auto simp: pipes_in_range_def dest: set_update_subset_insert [THEN subsetD])

lemma proc_frame_refl [simp]: "proc_frame st st"
  by (simp add: proc_frame_def)

lemma proc_frame_trans: "proc_frame a b \<Longrightarrow> proc_frame b c \<Longrightarrow> proc_frame a c"
  by (simp add: proc_frame_def)

lemma map_update_same: "f x = f (xs ! i) \<Longrightarrow> map f (xs[i := x]) = map f xs"
  by (metis list_update_id map_update)

lemma unregister_frame:
  "proc_frame st (snd (sunneed_tenant_unregister t st))" "cpu_usage (snd (sunneed_tenant_unregister t st)) = cpu_usage st"
  by (auto simp: sunneed_tenant_unregister_def proc_frame_def pipes_in_range_def map_update_same split: option.split)

lemma register_frame:
  "proc_frame st (snd (sunneed_tenant_register p st))" "cpu_usage (snd (sunneed_tenant_register p st)) = cpu_usage st"
  by (auto simp: sunneed_tenant_register_def proc_frame_def pipes_in_range_def slot_alloc_def activate_def
      map_update_same split: option.split)

lemma pipes_frame:
  "proc_frame st st' \<Longrightarrow> (\<And>t. tp_tenant e = Some t \<Longrightarrow> t < length (tenants st)) \<Longrightarrow>
   proc_frame st (st'\<lparr>tenant_pipes := (tenant_pipes st')[i := e]\<rparr>)"
  using frame_length [of st st'] range_update [of st' e i] by (auto simp: proc_frame_def)

lemma register_client_frame:
  assumes "register_client env pipe st = Done (t, st')"
  shows "proc_frame st st'" "cpu_usage st' = cpu_usage st"
proof -
  from assms obtain pid_int where pid: "peer_pid env = Some pid_int"
    by (auto simp: register_client_def split: option.splits)
  obtain r st1 where reg: "sunneed_tenant_register (int_of_u64 pid_int) st = (r, st1)" by fastforce
  have F: "proc_frame st st1" "cpu_usage st1 = cpu_usage st"
    using register_frame [where st = st and p = "int_of_u64 pid_int"] reg by simp_all
  from assms pid reg consider "st' = st1"
    | i tps u where "r = Some u" "st' = st1\<lparr>tenant_pipes := tps\<rparr>"
        "slot_alloc (\<lambda>tp. tp_tenant tp = None) (\<lambda>_. \<lparr>tp_tenant = Some u, tp_pipe = pipe\<rparr>) (tenant_pipes st1) = Some (i, tps)"
    by (auto simp: register_client_def split: option.splits)
  then show "proc_frame st st'" "cpu_usage st' = cpu_usage st"
  proof (atomize (full), cases)
    case 1
    with F show "proc_frame st st' \<and> cpu_usage st' = cpu_usage st" by simp
  next
    case 2
    have "u < length (tenants st)" using register_SomeD [of "int_of_u64 pid_int" st u st1] reg 2(1) by simp
    with 2 F slot_alloc_SomeD(4) [OF 2(3)] show "proc_frame st st' \<and> cpu_usage st' = cpu_usage st"
      by (auto intro: pipes_frame)
  qed
qed

lemma lost_tenant_frame:
  assumes "unregister_lost_tenant nng_init t st = Done st'"
  shows "proc_frame st st' \<and> cpu_usage st' = cpu_usage st"
proof -
  from assms consider "st' = st"
    | i where "st' = snd (sunneed_tenant_unregister (Some t) (st\<lparr>tenant_pipes := (tenant_pipes st)[i := empty_pipe nng_init]\<rparr>))"
    by (auto simp: unregister_lost_tenant_def split: option.splits)
  then show ?thesis
  proof cases
    case 1
    then show ?thesis by simp
  next
    case 2
    let ?st1 = "st\<lparr>tenant_pipes := (tenant_pipes st)[i := empty_pipe nng_init]\<rparr>"
    have "proc_frame st ?st1" by (rule pipes_frame) (simp_all add: empty_pipe_def)
    with 2 unregister_frame [where st = ?st1 and t = "Some t"] proc_frame_trans show ?thesis by auto
  qed
qed

section \<open>The monitor\<close>

text \<open>When every identifier is 0, only the first record of the CPU usage is ever written.\<close>

definition only_first_usage :: "cpu_usage \<Rightarrow> bool" where
  "only_first_usage c \<longleftrightarrow> length (cpu_tenants c) = MAX_TENANTS \<and>
     (\<forall>k. 0 < k \<longrightarrow> k < MAX_TENANTS \<longrightarrow> cpu_tenants c ! k = \<lparr>usage_user = 0, usage_sys = 0\<rparr>)"

definition proc_inv :: "proc_state \<Rightarrow> bool" where
  "proc_inv st \<longleftrightarrow> map tenant_id (tenants st) = replicate MAX_TENANTS 0 \<and>
     length (tenant_pipes st) = SUNNEED_MAX_IPC_CLIENTS \<and> only_first_usage (cpu_usage st)"

lemma proc_inv_frame: "proc_inv st \<Longrightarrow> proc_frame st st' \<Longrightarrow> cpu_usage st' = cpu_usage st \<Longrightarrow> proc_inv st'"
  by (simp add: proc_inv_def proc_frame_def)

lemma proc_inv_id: "proc_inv st \<Longrightarrow> i < MAX_TENANTS \<Longrightarrow> tenant_id (tenants st ! i) = 0"
  by (metis length_map length_replicate nth_map nth_replicate proc_inv_def)

lemma update_tenant_usage_inv:
  assumes "proc_inv st" "i < MAX_TENANTS" "update_tenant_usage fs nng_init i st = Done st'"
  shows "proc_inv st' \<and> proc_frame st st'"
proof -
  let ?path = "pid_stat_path (pid (tenants st ! i))" and ?k = "unat (tenant_id (tenants st ! i))"
  note run = assms(3) [unfolded update_tenant_usage_def Let_def]
  show ?thesis
  proof (cases "is_active (tenants st ! i) \<and> fs_access fs ?path")
    case False
    then have "st' = st \<or> unregister_lost_tenant nng_init i st = Done st'" using run by (simp split: if_splits)
    with lost_tenant_frame assms(1) proc_inv_frame proc_frame_refl show ?thesis by blast
  next
    case True
    with run obtain content where
      "st\<lparr>cpu_usage := store_tenant_usage (fscanf pid_stat_format content) ?k (cpu_usage st)\<rparr> = st'"
      by (cases "fs_read fs ?path") (simp_all split: if_splits)
    then show ?thesis
      using assms(1) proc_inv_id [OF assms(1,2)]
      by (auto simp: proc_inv_def proc_frame_def only_first_usage_def store_tenant_usage_def Let_def)
  qed
qed

lemma update_tenants_usage_inv:
  assumes "proc_inv st" "\<forall>i \<in> set is. i < MAX_TENANTS" "update_tenants_usage fs nng_init is st = Done st'"
  shows "proc_inv st' \<and> proc_frame st st'"
  using assms
proof (induction "is" arbitrary: st)
  case Nil
  then show ?case by simp
next
  case (Cons i "is")
  then obtain st1 where one: "update_tenant_usage fs nng_init i st = Done st1"
    and rest: "update_tenants_usage fs nng_init is st1 = Done st'" by auto
  from update_tenant_usage_inv [OF Cons.prems(1) _ one] Cons.prems(2)
  have "proc_inv st1" "proc_frame st st1" by auto
  with Cons.IH [OF this(1) _ rest] Cons.prems(2) proc_frame_trans show ?case by auto
qed

lemma monitor_inv:
  assumes "proc_inv st" "sunneed_update_tenant_cpu_usage fs nng_init st = Done (ret, st')"
  shows "proc_inv st' \<and> proc_frame st st'"
proof -
  from assms(2) obtain content where run: "update_tenants_usage fs nng_init [0..<MAX_TENANTS]
      (st\<lparr>cpu_usage := store_system_usage (fscanf proc_stat_format content) (cpu_usage st)\<rparr>) = Done st'"
    by (auto simp: sunneed_update_tenant_cpu_usage_def split: option.splits)
  let ?st = "st\<lparr>cpu_usage := store_system_usage (fscanf proc_stat_format content) (cpu_usage st)\<rparr>"
  have "proc_inv ?st" using assms(1) by (simp add: proc_inv_def only_first_usage_def)
  moreover have "proc_frame st ?st" by (simp add: proc_frame_def)
  ultimately show ?thesis
    using update_tenants_usage_inv [OF _ _ run] proc_frame_trans by (metis atLeastLessThan_iff set_upt)
qed

section \<open>The listener\<close>

text \<open>What the listener changes in no table: the devices, the list for the clients and all lengths.\<close>

definition table_frame :: "server_state \<Rightarrow> server_state \<Rightarrow> bool" where
  "table_frame st st' \<longleftrightarrow> sv_locked st' = sv_locked st \<and> devices (sv_dev st') = devices (sv_dev st) \<and>
     length (dummy_map (sv_dev st')) = length (dummy_map (sv_dev st)) \<and>
     length (dummy_path_fd_map st') = length (dummy_path_fd_map st)"

lemma dispatch_frame:
  assumes "dispatch nng env pipe t req st = Done (ret, body, st')"
  shows "proc_frame (sv_proc st) (sv_proc st') \<and> cpu_usage (sv_proc st') = cpu_usage (sv_proc st) \<and>
    table_frame st st'"
proof (cases req)
  case (RegisterClient n)
  with assms obtain t' pst where "register_client env pipe (sv_proc st) = Done (t', pst)" "sv_proc st' = pst"
    "table_frame st st'"
    by (auto simp: serve_register_client_def table_frame_def split: option.splits)
  then show ?thesis using register_client_frame by simp
next
  case UnregisterClient
  with assms obtain u where "serve_unregister_client nng pipe u st = Done (ret, body, st')"
    by (auto split: option.splits)
  then consider "st' = st"
    | i k where "sunneed_tenant_unregister (Some u) ((sv_proc st)\<lparr>tenant_pipes :=
          (tenant_pipes (sv_proc st))[i := empty_pipe (pipe_initializer nng)]\<rparr>) = (k, sv_proc st')"
        "table_frame st st'"
    by (auto simp: serve_unregister_client_def table_frame_def Let_def split: option.splits prod.splits if_splits)
  then show ?thesis
  proof cases
    case 1
    then show ?thesis by (simp add: table_frame_def)
  next
    case 2
    let ?p = "(sv_proc st)\<lparr>tenant_pipes := (tenant_pipes (sv_proc st))[i := empty_pipe (pipe_initializer nng)]\<rparr>"
    have "proc_frame (sv_proc st) ?p" by (rule pipes_frame) (simp_all add: empty_pipe_def)
    with 2 unregister_frame [where st = ?p and t = "Some u"] proc_frame_trans show ?thesis by auto
  qed
qed (use assms serve_open_frame serve_write_frame in \<open>auto simp: table_frame_def\<close>)

lemma serve_message_frame:
  assumes "serve_message nng env pipe request st = Done (r, st')"
  shows "proc_frame (sv_proc st) (sv_proc st') \<and> cpu_usage (sv_proc st') = cpu_usage (sv_proc st) \<and>
    table_frame st st'"
proof -
  from assms obtain resp where "handle_request nng env pipe request st = Done (resp, st')"
    by (auto simp: serve_message_def split: option.splits)
  then consider "st' = st" | req t ret body where "dispatch nng env pipe t req st = Done (ret, body, st')"
    by (auto simp: handle_request_def Let_def split: option.splits if_splits)
  then show ?thesis by cases (simp add: table_frame_def, blast dest: dispatch_frame)
qed

section \<open>Invariants of the daemon\<close>

text \<open>What holds in every reachable state, lost tenants or not.\<close>

definition shares_ok :: "sunneed_tenant list \<Rightarrow> bool" where
  "shares_ok ts \<longleftrightarrow> map power_proportion ts = replicate MAX_TENANTS (Zero False) \<or>
     map power_proportion ts = replicate MAX_TENANTS NaN"

definition power_inv :: "power_state \<Rightarrow> bool" where
  "power_inv pw \<longleftrightarrow> \<not> q_has_power_event (current_quantum pw) \<and> (\<exists>as. power_ok pw as)"

definition tables_ok :: "server_state \<Rightarrow> bool" where
  "tables_ok st \<longleftrightarrow> length (devices (sv_dev st)) = MAX_DEVICES \<and> length (dummy_map (sv_dev st)) = MAX_LOCKED_FILES \<and>
     length (sv_locked st) = MAX_LOCKED_FILES \<and> length (dummy_path_fd_map st) = MAX_LOCKED_FILES"

lemma tables_ok_proc [simp]: "tables_ok (st\<lparr>sv_proc := p\<rparr>) = tables_ok st"
  by (simp add: tables_ok_def)

lemma tables_frame: "tables_ok st \<Longrightarrow> table_frame st st' \<Longrightarrow> tables_ok st'"
  by (simp add: tables_ok_def table_frame_def)

definition daemon_inv :: "daemon \<Rightarrow> bool" where
  "daemon_inv d \<longleftrightarrow> proc_inv (sv_proc (dm_server d)) \<and> pipes_in_range (sv_proc (dm_server d)) \<and>
     tables_ok (dm_server d) \<and> driver_inv (dm_drv d) \<and> dm_atexit d \<and> shares_ok (tenants (sv_proc (dm_server d))) \<and>
     power_inv (dm_power d) \<and> (\<forall>dev \<in> set (devices (sv_dev (dm_server d))). device_ok dev) \<and>
     sv_locked (dm_server d) = lp_of (concat (map locked_by (devices (sv_dev (dm_server d)))))"

lemma shares_frame: "shares_ok (tenants st) \<Longrightarrow> proc_frame st st' \<Longrightarrow> shares_ok (tenants st')"
  by (simp add: shares_ok_def proc_frame_def)

lemma quantum_begin_inv:
  assumes "power_inv pw" "sunneed_quantum_begin reading now malloc pw = Some (Done (ret, pw'))"
  shows "power_inv pw'"
proof -
  obtain as where as: "power_ok pw as" using assms(1) by (auto simp: power_inv_def)
  show ?thesis
    using assms power_ok_free [OF as]
    by (cases malloc) (auto simp: sunneed_quantum_begin_def Let_def power_inv_def power_ok_def fresh_head_def
        split: if_splits intro: exI [of _ "[]"] exI [of _ "[_]"])
qed

lemma quantum_end_inv:
  assumes "power_inv pw" "shares_ok ts" "map tenant_id ts = replicate MAX_TENANTS 0"
    and "sunneed_quantum_end pw ts = Some (Done (ret, pw', ts'))"
  shows "power_inv pw' \<and> map power_proportion ts' = replicate MAX_TENANTS NaN \<and>
    map (\<lambda>t. (tenant_id t, pid t, is_active t)) ts' = map (\<lambda>t. (tenant_id t, pid t, is_active t)) ts"
proof -
  have len: "length ts = MAX_TENANTS" using assms(3) by (metis length_map length_replicate)
  have ev: "\<not> q_has_power_event (current_quantum pw)" using assms(1) by (simp add: power_inv_def)
  let ?us = "map (\<lambda>t. unscaled_proportion (Zero False) (q_present_power (current_quantum pw)) (power_proportion t)) ts"
  from quantum_end_no_event [OF ev len] assms(4)
  have r: "pw' = pw\<lparr>current_quantum := (current_quantum pw)\<lparr>q_is_active := False\<rparr>\<rparr>"
    "ts' = set_proportions (rescale ?us) ts" by simp_all
  have "ts \<noteq> []" using len by (auto simp: capacities)
  then have "is_zero_or_nan (power_proportion (ts ! 0))"
    using assms(2) len unfolding shares_ok_def
    by (metis is_zero_or_nan_simps(1,2) length_greater_0_conv nth_map nth_replicate)
  then have "NaN \<in> set ?us"
    using unscaled_nan [of "q_present_power (current_quantum pw)" "power_proportion (ts ! 0)"] \<open>ts \<noteq> []\<close>
    by (metis (no_types, lifting) image_eqI length_greater_0_conv list.set_map nth_mem)
  from rescale_nan [OF this] r len assms(1) show ?thesis
    by (auto simp: power_inv_def power_ok_def proportions_set set_proportions_keeps)
qed

lemma end_quantum_proc_inv:
  assumes "proc_inv st" "map (\<lambda>t. (tenant_id t, pid t, is_active t)) ts = map (\<lambda>t. (tenant_id t, pid t, is_active t)) (tenants st)"
  shows "proc_inv (st\<lparr>tenants := ts\<rparr>)"
proof -
  have "map tenant_id ts = map fst (map (\<lambda>t. (tenant_id t, pid t, is_active t)) ts)" by (simp add: o_def)
  also have "\<dots> = map tenant_id (tenants st)" unfolding assms(2) by (simp add: o_def)
  finally show ?thesis using assms(1) by (simp add: proc_inv_def)
qed

lemma daemon_act_inv:
  assumes "daemon_inv d" "daemon_act nng fs_ok act d d'"
  shows "daemon_inv d'"
  using assms(2,1)
proof (cases rule: daemon_act.cases)
  case (message pipe env request r sv)
  have F: "proc_frame (sv_proc (dm_server d)) (sv_proc sv)" "cpu_usage (sv_proc sv) = cpu_usage (sv_proc (dm_server d))"
    "table_frame (dm_server d) sv" using serve_message_frame [OF message(4)] by simp_all
  then have "pipes_in_range (sv_proc (dm_server d)) \<Longrightarrow> pipes_in_range (sv_proc sv)" by (simp add: proc_frame_def)
  moreover have "sv_locked sv = sv_locked (dm_server d)" "devices (sv_dev sv) = devices (sv_dev (dm_server d))"
    using F(3) by (simp_all add: table_frame_def)
  ultimately show ?thesis
    using message(2) assms(1) shares_frame [OF _ F(1)] proc_inv_frame [OF _ F(1,2)] tables_frame [OF _ F(3)]
    by (auto simp: daemon_inv_def)
next
  case (monitor fs p)
  have "proc_inv (sv_proc (dm_server d))" using assms(1) by (simp add: daemon_inv_def)
  from monitor_inv [OF this monitor(4)] monitor(2) assms(1) show ?thesis
    using shares_frame by (auto simp: daemon_inv_def proc_frame_def)
next
  case (driver drv)
  with assms(1) driver_step_inv show ?thesis by (auto simp: daemon_inv_def)
next
  case (begin_quantum reading now malloc ret pw)
  then show ?thesis using assms(1) quantum_begin_inv [OF _ begin_quantum(3)] by (auto simp: daemon_inv_def)
next
  case (end_quantum ret pw ts)
  have inv: "power_inv (dm_power d)" "shares_ok (tenants (sv_proc (dm_server d)))"
    "map tenant_id (tenants (sv_proc (dm_server d))) = replicate MAX_TENANTS 0" "proc_inv (sv_proc (dm_server d))"
    using assms(1) by (auto simp: daemon_inv_def proc_inv_def)
  note Q = quantum_end_inv [OF inv(1-3) end_quantum(3)]
  have P: "proc_inv ((sv_proc (dm_server d))\<lparr>tenants := ts\<rparr>)"
    using end_quantum_proc_inv [OF inv(4)] Q by blast
  have "length ts = length (tenants (sv_proc (dm_server d)))" using Q [THEN conjunct2, THEN conjunct2, THEN arg_cong [of _ _ length]] by simp
  then have R: "pipes_in_range ((sv_proc (dm_server d))\<lparr>tenants := ts\<rparr>)"
    using assms(1) by (simp add: daemon_inv_def pipes_in_range_def)
  have S: "shares_ok ts" using Q by (simp add: shares_ok_def)
  show ?thesis using P R S Q end_quantum(2) assms(1) by (simp add: daemon_inv_def)
qed

lemma daemon_step_inv: "daemon_inv d \<Longrightarrow> daemon_step nng fs_ok d d' \<Longrightarrow> daemon_inv d'"
  unfolding daemon_step_def using daemon_act_inv by blast

text \<open>Only the end of a quantum changes a share, and it sets all of them to NaN.\<close>

lemma daemon_act_shares:
  assumes "daemon_inv d" "daemon_act nng fs_ok act d d'"
  shows "map power_proportion (tenants (sv_proc (dm_server d'))) =
    (if act = End_quantum then replicate MAX_TENANTS NaN
     else map power_proportion (tenants (sv_proc (dm_server d))))"
  using assms(2)
proof (cases rule: daemon_act.cases)
  case (message pipe env request r sv)
  with serve_message_frame [OF message(4)] show ?thesis by (simp add: proc_frame_def)
next
  case (monitor fs p)
  have "proc_inv (sv_proc (dm_server d))" using assms(1) by (simp add: daemon_inv_def)
  from monitor_inv [OF this monitor(4)] monitor(1,2) show ?thesis by (simp add: proc_frame_def)
next
  case (end_quantum ret pw ts)
  from quantum_end_inv [OF _ _ _ end_quantum(3)] end_quantum(1,2) assms(1) show ?thesis
    by (simp add: daemon_inv_def proc_inv_def)
qed simp_all

lemma proc_static_inv: "proc_inv proc_static"
  by (auto simp: proc_inv_def proc_static_def zero_tenant_def only_first_usage_def)

lemma power_static_inv: "power_inv power_static"
  by (auto simp: power_inv_def power_static_def power_ok_def intro: exI [of _ "[]"])

lemma started_inv:
  assumes "nng_ok nng" "startup_ok env" "me_received env = []" "main nng env tests [] daemon_static = Done (None, d)"
  shows "daemon_inv d \<and> server_ok nng (dm_server d)"
proof -
  have d: "server_ok nng (dm_server d)"
    "sv_locked (dm_server d) = lp_of (concat (map locked_by (devices (sv_dev (dm_server d)))))"
    "tenants (sv_proc (dm_server d)) = tenants proc_static" "dm_power d = power_static"
    "cpu_usage (sv_proc (dm_server d)) = cpu_usage proc_static" "sessions (sv_proc (dm_server d)) = {}"
    "dm_drv d = drivers_static" "dm_atexit d" "length (devices (sv_dev (dm_server d))) = MAX_DEVICES"
    "dummy_map (sv_dev (dm_server d)) = dummy_map device_static"
    "length (concat (map locked_by (devices (sv_dev (dm_server d))))) \<le> MAX_LOCKED_FILES"
    using main_start [OF assms(1-3), of tests] assms(4) by auto
  have "length (sv_locked (dm_server d)) = MAX_LOCKED_FILES" unfolding d(2) lp_of_def using d(11) by simp
  then have "tables_ok (dm_server d)"
    using d(9,10) server_okD(4) [OF d(1)] by (simp add: tables_ok_def device_static_def)
  moreover have "pipes_in_range (sv_proc (dm_server d))"
    using registry_ok_in_range [OF server_okD(1) [OF d(1)]] .
  moreover have "proc_inv (sv_proc (dm_server d))"
    using proc_static_inv d(3,5) registry_okD(2) [OF server_okD(1) [OF d(1)]] by (simp add: proc_inv_def)
  moreover have "shares_ok (tenants (sv_proc (dm_server d)))"
    using d(3) by (simp add: shares_ok_def proc_static_def zero_tenant_def)
  ultimately show ?thesis using d(1,2,4,7,8) power_static_inv driver_inv_static server_okD(3) [OF d(1)]
    by (simp add: daemon_inv_def)
qed

definition start_condition :: "nng \<Rightarrow> main_env \<Rightarrow> bool" where
  "start_condition nng env \<longleftrightarrow> nng_ok nng \<and> startup_ok env \<and> me_received env = []"

text \<open>The transition system of the daemon keeps the invariant, whatever the monitor finds.\<close>

interpretation daemon_system: step_system
  "\<lambda>d. start_condition nng env \<and> (\<exists>tests. main nng env tests [] daemon_static = Done (None, d))"
  "daemon_step nng fs_ok" daemon_inv for nng env fs_ok
  by unfold_locales (auto simp: start_condition_def dest: started_inv daemon_step_inv)

lemma reachable_reach:
  assumes "start_condition nng env" "reachable nng env fs_ok d"
  shows "daemon_system.reach nng env fs_ok d"
  using assms(2)
proof (induction rule: reachable.induct)
  case (started tests d)
  with assms(1) show ?case by (intro daemon_system.first) blast
next
  case (step d d')
  show ?case using step(3,2) by (rule daemon_system.later)
qed

lemma reachable_inv: "start_condition nng env \<Longrightarrow> reachable nng env fs_ok d \<Longrightarrow> daemon_inv d"
  using daemon_system.reach_inv [OF reachable_reach] .

section \<open>Executions in which no client is lost\<close>

lemma registry_ok_cong:
  assumes "registry_ok st" "map is_active (tenants st') = map is_active (tenants st)" "tenant_pipes st' = tenant_pipes st"
  shows "registry_ok st'"
proof -
  have len: "length (tenants st') = length (tenants st)" using assms(2) by (metis length_map)
  have act: "is_active (tenants st' ! t) = is_active (tenants st ! t)" if "t < MAX_TENANTS" for t
    using that assms(2) registry_okD(1) [OF assms(1)] len by (metis nth_map)
  show ?thesis
    using assms(1) act unfolding registry_ok_def len assms(3) by blast
qed

lemma alive_update:
  assumes "all_alive fs" "update_tenants_usage fs nng_init is st = Done st'"
  shows "tenants st' = tenants st \<and> tenant_pipes st' = tenant_pipes st"
  using assms(2)
proof (induction "is" arbitrary: st)
  case Nil
  then show ?case by simp
next
  case (Cons i "is")
  then obtain st1 where one: "update_tenant_usage fs nng_init i st = Done st1"
    and rest: "update_tenants_usage fs nng_init is st1 = Done st'" by auto
  have "tenants st1 = tenants st \<and> tenant_pipes st1 = tenant_pipes st"
    using one assms(1) unfolding update_tenant_usage_def Let_def all_alive_def
    by (cases "fs_read fs (pid_stat_path (pid (tenants st ! i)))") (auto split: if_splits)
  with Cons.IH [OF rest] show ?case by simp
qed

lemma alive_monitor:
  assumes "all_alive fs" "sunneed_update_tenant_cpu_usage fs nng_init st = Done (ret, st')"
  shows "tenants st' = tenants st \<and> tenant_pipes st' = tenant_pipes st"
  using assms(2) alive_update [OF assms(1)]
  by (fastforce simp: sunneed_update_tenant_cpu_usage_def split: option.splits)

lemma server_ok_tenants:
  assumes "server_ok nng sv" "map is_active (tenants p) = map is_active (tenants (sv_proc sv))"
    "tenant_pipes p = tenant_pipes (sv_proc sv)"
  shows "server_ok nng (sv\<lparr>sv_proc := p\<rparr>)"
  using assms registry_ok_cong [OF _ assms(2,3)] by (simp add: server_ok_def pipes_ok_def)

lemma alive_step:
  assumes "nng_ok nng" "daemon_inv d" "server_ok nng (dm_server d)" "daemon_step nng all_alive d d'"
  shows "server_ok nng (dm_server d')"
proof -
  obtain act where "daemon_act nng all_alive act d d'" using assms(4) by (auto simp: daemon_step_def)
  then show ?thesis
  proof (cases rule: daemon_act.cases)
    case (message pipe env request r sv)
    from message(4) obtain resp where "handle_request nng env pipe request (dm_server d) = Done (resp, sv)"
      by (auto simp: serve_message_def split: option.splits)
    with handle_request_refines [OF assms(1) message(3) assms(3)] message(2) show ?thesis by auto
  next
    case (monitor fs p)
    from alive_monitor [OF monitor(3,4)] monitor(2) assms(3) show ?thesis
      by (auto intro!: server_ok_tenants)
  next
    case (begin_quantum reading now malloc ret pw)
    then show ?thesis using assms(3) by simp
  next
    case (driver drv)
    then show ?thesis using assms(3) by simp
  next
    case (end_quantum ret pw ts)
    have "map (\<lambda>t. (tenant_id t, pid t, is_active t)) ts = map (\<lambda>t. (tenant_id t, pid t, is_active t)) (tenants (sv_proc (dm_server d)))"
      using quantum_end_inv [OF _ _ _ end_quantum(3)] assms(2) by (auto simp: daemon_inv_def proc_inv_def)
    then have "map (snd \<circ> snd) (map (\<lambda>t. (tenant_id t, pid t, is_active t)) ts) =
        map (snd \<circ> snd) (map (\<lambda>t. (tenant_id t, pid t, is_active t)) (tenants (sv_proc (dm_server d))))" by simp
    then have "map is_active ts = map is_active (tenants (sv_proc (dm_server d)))" by (simp add: o_def)
    then show ?thesis using assms(3) end_quantum(2) by (auto intro!: server_ok_tenants)
  qed
qed

lemma reachable_server_ok:
  assumes "start_condition nng env" "reachable nng env all_alive d"
  shows "server_ok nng (dm_server d)"
  using assms(2)
proof (induction rule: reachable.induct)
  case (started tests d)
  with assms(1) started_inv show ?case by (auto simp: start_condition_def)
next
  case (step d d')
  have "nng_ok nng" using assms(1) by (simp add: start_condition_def)
  with alive_step reachable_inv [OF assms(1) step(1)] step(2,3) show ?case by blast
qed

section \<open>Properties of the running daemon\<close>

text \<open>
  C4. As long as the processes of the clients stay alive, the registry of the running daemon
  is consistent in every reachable state, however messages, monitor passes and quanta
  interleave: the used entries of the pipe table and the active tenants are in bijection,
  every used entry has a valid pipe and every unused one has none, and the clients are told
  exactly the paths that the devices lock.
\<close>

theorem reachable_registry_consistent:
  assumes "start_condition nng env" "reachable nng env all_alive d"
  shows "registry_ok (sv_proc (dm_server d)) \<and> pipes_ok nng (sv_proc (dm_server d)) \<and>
    card (snd ` sessions (sv_proc (dm_server d))) = unat (sunneed_get_num_tenants (sv_proc (dm_server d))) \<and>
    sv_locked (dm_server d) = lp_of (concat (map locked_by (devices (sv_dev (dm_server d)))))"
proof -
  note S = server_okD [OF reachable_server_ok [OF assms]]
  have "card (snd ` sessions (sv_proc (dm_server d))) = unat (sunneed_get_num_tenants (sv_proc (dm_server d)))"
    using tenants_of_sessions [OF S(1)] num_tenants_card [OF registry_ok_tenants_ok [OF S(1)]] by simp
  with S reachable_inv [OF assms] show ?thesis by (simp add: daemon_inv_def)
qed

lemma demo_start: "start_condition demo_nng demo_main"
  using demo_nng_ok(1) demo_main_ok by (simp add: start_condition_def demo_main_def)

lemma demo_reachable: "\<exists>d. reachable demo_nng demo_main fs_ok d"
  using main_start [OF demo_nng_ok(1) demo_main_ok, of "[]"] reachable.started
  by (metis demo_start start_condition_def)

theorem reachable_registry_consistent_witness:
  "\<exists>d. reachable demo_nng demo_main all_alive d \<and> registry_ok (sv_proc (dm_server d)) \<and>
     pipes_ok demo_nng (sv_proc (dm_server d)) \<and>
     sv_locked (dm_server d) = lp_of (concat (map locked_by (devices (sv_dev (dm_server d)))))"
proof -
  obtain d where d: "reachable demo_nng demo_main all_alive d" using demo_reachable by blast
  from reachable_registry_consistent [OF demo_start this] d show ?thesis by blast
qed

text \<open>
  C22. The accounting of the running daemon tells tenants apart in no reachable state, whether
  clients are lost or not: every tenant has the identifier 0, so that CPU time is only ever
  recorded in the first record, and the power shares of all four are zero until the first
  quantum ends and NaN from then on, whatever activities of the daemon have led to the state.
\<close>

theorem reachable_accounting:
  assumes "start_condition nng env" "reachable_by nng env fs_ok acts d"
  shows "(\<forall>t < MAX_TENANTS. tenant_id (tenants (sv_proc (dm_server d)) ! t) = 0) \<and>
    (\<forall>k. 0 < k \<longrightarrow> k < MAX_TENANTS \<longrightarrow>
       cpu_tenants (cpu_usage (sv_proc (dm_server d))) ! k = \<lparr>usage_user = 0, usage_sys = 0\<rparr>) \<and>
    map power_proportion (tenants (sv_proc (dm_server d))) =
      replicate MAX_TENANTS (if End_quantum \<in> set acts then NaN else Zero False)"
proof -
  have "daemon_inv d" using assms reachable_by_iff reachable_inv by blast
  moreover have "map power_proportion (tenants (sv_proc (dm_server d))) =
      replicate MAX_TENANTS (if End_quantum \<in> set acts then NaN else Zero False)"
    using assms(2)
  proof (induction rule: reachable_by.induct)
    case (begun tests d)
    then have "tenants (sv_proc (dm_server d)) = tenants proc_static"
      using main_start [of nng env tests] assms(1) by (auto simp: start_condition_def)
    then show ?case by (simp add: proc_static_def zero_tenant_def)
  next
    case (performed acts d a d')
    have "daemon_inv d" using assms(1) performed(1) reachable_by_iff reachable_inv by blast
    from daemon_act_shares [OF this performed(2)] performed(3) show ?case by auto
  qed
  ultimately show ?thesis using proc_inv_id by (auto simp: daemon_inv_def proc_inv_def only_first_usage_def)
qed

theorem reachable_accounting_witness:
  "\<exists>d. reachable_by demo_nng demo_main (\<lambda>_. True) [End_quantum] d \<and>
     map power_proportion (tenants (sv_proc (dm_server d))) = replicate MAX_TENANTS NaN"
proof -
  obtain d where d: "main demo_nng demo_main [] [] daemon_static = Done (None, d)" "dm_power d = power_static"
    "tenants (sv_proc (dm_server d)) = tenants proc_static"
    using main_start [OF demo_nng_ok(1) demo_main_ok, of "[]"] by (auto simp: demo_main_def)
  have "\<not> q_has_power_event (current_quantum (dm_power d))" "length (tenants (sv_proc (dm_server d))) = MAX_TENANTS"
    using d(2,3) by (simp_all add: power_static_def proc_static_def)
  from quantum_end_no_event [OF this] obtain pw ts where
    "sunneed_quantum_end (dm_power d) (tenants (sv_proc (dm_server d))) = Some (Done (0, pw, ts))" by blast
  note act = daemon_act.end_quantum [OF this, of demo_nng "\<lambda>_. True"]
  obtain d' where "reachable_by demo_nng demo_main (\<lambda>_. True) ([] @ [End_quantum]) d'"
    using reachable_by.performed [OF reachable_by.begun [OF d(1)] act] by blast
  with reachable_accounting [OF demo_start this] show ?thesis by auto
qed

text \<open>
  C31. A client whose process is gone. In every state that the daemon can reach without having
  lost a client before, the removal of a lost tenant goes by entry 0 of the pipe table, since all
  identifiers are 0. If entry 0 is unused, because its client has left, the daemon dereferences
  NULL. Otherwise entry 0 is cleared and the lost tenant is deactivated, and the registry is
  consistent afterwards only if entry 0 was that of the lost tenant.
\<close>

theorem reachable_lost_tenant:
  assumes "start_condition nng env" "reachable nng env all_alive d"
    and "t < MAX_TENANTS" "is_active (tenants (sv_proc (dm_server d)) ! t)"
  shows "case tp_tenant (tenant_pipes (sv_proc (dm_server d)) ! 0) of
      None \<Rightarrow> unregister_lost_tenant (pipe_initializer nng) t (sv_proc (dm_server d)) = Fault NullDeref
    | Some a \<Rightarrow> \<exists>st'. unregister_lost_tenant (pipe_initializer nng) t (sv_proc (dm_server d)) = Done st' \<and>
        tenant_pipes st' = (tenant_pipes (sv_proc (dm_server d)))[0 := \<lparr>tp_tenant = None, tp_pipe = pipe_initializer nng\<rparr>] \<and>
        active_set st' = active_set (sv_proc (dm_server d)) - {t} \<and> (registry_ok st' \<longleftrightarrow> a = t)"
proof -
  have "registry_ok (sv_proc (dm_server d))" using server_okD(1) [OF reachable_server_ok [OF assms(1,2)]] .
  moreover have "\<forall>u < MAX_TENANTS. tenant_id (tenants (sv_proc (dm_server d)) ! u) = 0"
    using reachable_inv [OF assms(1,2)] proc_inv_id by (simp add: daemon_inv_def)
  ultimately show ?thesis using assms(3,4) by (rule lost_tenant_zero_ids)
qed

text \<open>A reachable state in which a client is registered.\<close>

lemma demo_client_reachable:
  obtains d t where "reachable demo_nng demo_main all_alive d" "t < MAX_TENANTS"
    "is_active (tenants (sv_proc (dm_server d)) ! t)"
proof -
  obtain d where d: "main demo_nng demo_main [] [] daemon_static = Done (None, d)" "server_ok demo_nng (dm_server d)"
    "sessions (sv_proc (dm_server d)) = {}"
    and ld: "sunneed_load_devices (me_dlopen demo_main) (me_alloc demo_main) (me_dir demo_main) (devices device_static)
      locked_file_paths_static = Done (0, devices (sv_dev (dm_server d)), sv_locked (dm_server d))"
    using main_start [OF demo_nng_ok(1) demo_main_ok, of "[]"] by (auto simp: demo_main_def)
  have lp: "sv_locked (dm_server d) = lp_of build_paths"
    using ld build_device_paths by (auto simp: demo_main_def)
  have pre: "peer_pid demo_env = Some 100" "length build_paths < MAX_LOCKED_FILES"
    "card (snd ` sessions (sv_proc (dm_server d))) < MAX_TENANTS"
    using d(3) by (simp_all add: demo_env_def build_paths_def capacities)
  obtain t sv where sv: "handle_request demo_nng demo_env 7 (Some (RegisterClient ''TODO'')) (dm_server d) =
      Done (Some \<lparr>resp_status = 0, resp_body = RespRegisterClient build_paths\<rparr>, sv)" "sessions (sv_proc sv) = {(7, t)}"
    using handle_register [OF d(2) demo_nng_ok(2) pre(1) lp pre(2), of "''TODO''"] pre(3) d(3) by auto
  then have "serve_message demo_nng demo_env 7 (Some (RegisterClient ''TODO'')) (dm_server d) =
      Done (Reply \<lparr>resp_status = 0, resp_body = RespRegisterClient build_paths\<rparr>, sv)"
    by (simp add: serve_message_def send_response_def demo_env_def)
  with demo_nng_ok(2) have "daemon_act demo_nng all_alive Message d (d\<lparr>dm_server := sv\<rparr>)" by (rule daemon_act.message)
  then have "daemon_step demo_nng all_alive d (d\<lparr>dm_server := sv\<rparr>)" unfolding daemon_step_def by (rule exI)
  with reachable.started [OF d(1)] have "reachable demo_nng demo_main all_alive (d\<lparr>dm_server := sv\<rparr>)"
    by (rule reachable.step)
  moreover have ok: "server_ok demo_nng sv"
    using handle_request_refines [OF demo_nng_ok(1,2) d(2) sv(1)] by simp
  have "snd ` sessions (sv_proc sv) = active_set (sv_proc sv)" "length (tenants (sv_proc sv)) = MAX_TENANTS"
    using tenants_of_sessions [OF server_okD(1) [OF ok]] registry_okD(1) [OF server_okD(1) [OF ok]] by simp_all
  with sv(2) have "t \<in> active_set (sv_proc sv)" "length (tenants (sv_proc sv)) = MAX_TENANTS" by auto
  then have "t < MAX_TENANTS" "is_active (tenants (sv_proc (dm_server (d\<lparr>dm_server := sv\<rparr>))) ! t)"
    by (auto simp: active_set_def)
  ultimately show ?thesis by (rule that)
qed

theorem reachable_lost_tenant_witness:
  "\<exists>d t. reachable demo_nng demo_main all_alive d \<and> is_active (tenants (sv_proc (dm_server d)) ! t) \<and>
     (case tp_tenant (tenant_pipes (sv_proc (dm_server d)) ! 0) of
        None \<Rightarrow> unregister_lost_tenant 0 t (sv_proc (dm_server d)) = Fault NullDeref
      | Some a \<Rightarrow> \<exists>st'. unregister_lost_tenant 0 t (sv_proc (dm_server d)) = Done st' \<and> (registry_ok st' \<longleftrightarrow> a = t))"
proof -
  obtain d t where d: "reachable demo_nng demo_main all_alive d" "t < MAX_TENANTS"
    "is_active (tenants (sv_proc (dm_server d)) ! t)" by (rule demo_client_reachable)
  have "pipe_initializer demo_nng = 0" by (simp add: demo_nng_def)
  with reachable_lost_tenant [OF demo_start d] d show ?thesis
    by (intro exI [of _ d] exI [of _ t]) (auto split: option.splits)
qed

text \<open>
  C19. The quantum thread does not get stuck: in every reachable state the next quantum can
  begin, unless memory runs out or the counter of quanta has reached the largest \<open>int\<close>, and
  the current one can end; neither call dereferences a freed node or loops for ever.
\<close>

theorem reachable_quantum_progress:
  assumes "start_condition nng env" "reachable nng env fs_ok d"
    and "q_id (current_quantum (dm_power d)) < 2 ^ 31 - 1"
  shows "(\<exists>pw. sunneed_quantum_begin reading now (Some head) (dm_power d) = Some (Done (0, pw))) \<and>
    (\<exists>pw ts. sunneed_quantum_end (dm_power d) (tenants (sv_proc (dm_server d))) = Some (Done (0, pw, ts)))"
proof -
  have inv: "daemon_inv d" using assms(1,2) by (rule reachable_inv)
  then obtain as where as: "power_ok (dm_power d) as" "\<not> q_has_power_event (current_quantum (dm_power d))"
    by (auto simp: daemon_inv_def power_inv_def)
  have "length (tenants (sv_proc (dm_server d))) = MAX_TENANTS"
    using inv unfolding daemon_inv_def proc_inv_def by (metis length_map length_replicate)
  from quantum_end_no_event [OF as(2) this] quantum_begin_ok [OF as(1) assms(3), of reading now head]
  show ?thesis by metis
qed

theorem reachable_quantum_progress_witness:
  "\<exists>d pw. reachable demo_nng demo_main (\<lambda>_. True) d \<and>
     sunneed_quantum_begin 500 (0, 0) (Some 16) (dm_power d) = Some (Done (0, pw))"
proof -
  obtain d where run: "main demo_nng demo_main [] [] daemon_static = Done (None, d)" and pw: "dm_power d = power_static"
    using main_start [OF demo_nng_ok(1) demo_main_ok, of "[]"] by (auto simp: demo_main_def)
  have d: "reachable demo_nng demo_main (\<lambda>_. True) d" using run by (rule reachable.started)
  have "q_id (current_quantum (dm_power d)) < 2 ^ 31 - 1" using pw by (simp add: power_static_def)
  from reachable_quantum_progress [OF demo_start d this, of 500 "(0, 0)" 16] d show ?thesis by blast
qed

section \<open>Types\<close>

text \<open>
  The state conforms to its C declarations: every array has its declared length, every pointer
  into an array stays inside it, the identifiers that are used as indices are indices, the
  declared lengths of the devices' path arrays are honest, and the event list is a list of
  allocated nodes.
\<close>

definition well_typed :: "daemon \<Rightarrow> bool" where
  "well_typed d \<longleftrightarrow>
     (let sv = dm_server d; p = sv_proc sv
      in length (tenants p) = MAX_TENANTS \<and> length (tenant_pipes p) = SUNNEED_MAX_IPC_CLIENTS \<and>
         (\<forall>tp \<in> set (tenant_pipes p). \<forall>t. tp_tenant tp = Some t \<longrightarrow> t < MAX_TENANTS) \<and>
         (\<forall>t \<in> set (tenants p). unat (tenant_id t) < MAX_TENANTS) \<and>
         length (cpu_tenants (cpu_usage p)) = MAX_TENANTS \<and>
         length (devices (sv_dev sv)) = MAX_DEVICES \<and> (\<forall>dev \<in> set (devices (sv_dev sv)). device_ok dev) \<and>
         length (dummy_map (sv_dev sv)) = MAX_LOCKED_FILES \<and>
         length (sv_locked sv) = MAX_LOCKED_FILES \<and> length (dummy_path_fd_map sv) = MAX_LOCKED_FILES \<and>
         (\<exists>as. power_ok (dm_power d) as))"

text \<open>
  C13. Type soundness of the running daemon. In every state that the daemon can reach from its
  start, however messages, monitor passes, quanta and driver threads interleave and whether
  clients are lost or not, the state conforms to the C declarations; in particular no entry of
  the pipe table ever points outside the array of tenants and no table changes its length.
\<close>

theorem reachable_well_typed:
  assumes "start_condition nng env" "reachable nng env fs_ok d"
  shows "well_typed d"
proof -
  have inv: "daemon_inv d" using assms by (rule reachable_inv)
  then have ids: "map tenant_id (tenants (sv_proc (dm_server d))) = replicate MAX_TENANTS 0"
    by (simp add: daemon_inv_def proc_inv_def)
  from arg_cong [OF ids, of length] have len: "length (tenants (sv_proc (dm_server d))) = MAX_TENANTS" by simp
  have "tenant_id t = 0" if "t \<in> set (tenants (sv_proc (dm_server d)))" for t
    using arg_cong [OF ids, of set] that by (auto split: if_splits)
  then show ?thesis
    using inv len unfolding well_typed_def Let_def daemon_inv_def proc_inv_def only_first_usage_def
      pipes_in_range_def tables_ok_def power_inv_def
    by (auto simp: capacities)
qed

theorem reachable_well_typed_witness: "\<exists>d. reachable demo_nng demo_main (\<lambda>_. True) d \<and> well_typed d"
proof -
  obtain d where d: "reachable demo_nng demo_main (\<lambda>_. True) d" using demo_reachable by blast
  from reachable_well_typed [OF demo_start d] d show ?thesis by blast
qed

section \<open>The driver threads in the running daemon\<close>

text \<open>
  C14. The children of the daemon. In every reachable state a child that has ended can be waited
  for: some driver thread is in \<^verbatim>\<open>wait\<close>. When both threads have ended no child is left. When the
  daemon exits, the exit handler reaches every child there is, by its own identifier or by the
  process group. Exactly, it sends the signal TERM for the stepper driver and, unless that ends
  the daemon, for the camera driver, each time to what \<^verbatim>\<open>fork\<close> has returned for the driver: to
  the process group of the daemon if the driver is not yet forked, to every process of the system
  if \<^verbatim>\<open>fork\<close> failed, and else to a driver that is running, has ended or has already been waited for.
\<close>

theorem reachable_children:
  assumes "start_condition nng env" "reachable nng env fs_ok d" "s = dm_drv d"
  shows "(\<forall>p \<in> dr_zombies s. \<exists>k. dr_thread s k = Waiting) \<and>
    ((\<forall>k. dr_thread s k = Ended) \<longrightarrow> dr_children s = {}) \<and>
    (\<forall>p \<in> dr_children s. (p, SIGTERM) \<in> set (exit_signals d) \<or> (0, SIGTERM) \<in> set (exit_signals d)) \<and>
    exit_signals d =
      (case dr_forked s Stepper of
         None \<Rightarrow> [(0, SIGTERM)]
       | Some r \<Rightarrow> [(r, SIGTERM), ((case dr_forked s Camera of None \<Rightarrow> 0 | Some r' \<Rightarrow> r'), SIGTERM)]) \<and>
    (\<forall>k. dr_forked s k = None \<longleftrightarrow> dr_thread s k = ToFork) \<and>
    (\<forall>k r. dr_forked s k = Some r \<longrightarrow> r = -1 \<or> 0 < r \<and> r \<in> dr_running s \<union> dr_zombies s \<union> dr_waited s)"
proof -
  have inv: "driver_inv s" "dm_atexit d" using reachable_inv [OF assms(1,2)] assms(3) by (simp_all add: daemon_inv_def)
  have fin: "finite (dr_children s)" using inv(1) by (rule driver_inv_finite)
  have cards: "card (dr_children s) \<le> card (waiting s)" using inv(1) by (simp add: driver_inv_def)
  have none: "dr_children s = {}" if "\<forall>k. dr_thread s k \<noteq> Waiting"
    using that cards fin by (simp add: waiting_def)
  then have zomb: "\<exists>k. dr_thread s k = Waiting" if "p \<in> dr_zombies s" for p
    using that by (auto simp: dr_children_def)
  have past: "r = -1 \<or> 0 < r \<and> r \<in> dr_running s \<union> dr_zombies s \<union> dr_waited s" if "dr_forked s k = Some r" for k r
    using that inv(1) unfolding driver_inv_def dr_children_def by simp
  have pids: "pid_of k (dr_pids s) = (case dr_forked s k of None \<Rightarrow> 0 | Some r \<Rightarrow> r)" for k
    using inv(1) unfolding driver_inv_def by blast
  have nz: "dr_forked s k \<noteq> Some 0" for k using past [of k 0] by auto
  have sig: "exit_signals d = (case dr_forked s Stepper of None \<Rightarrow> [(0, SIGTERM)]
      | Some r \<Rightarrow> [(r, SIGTERM), ((case dr_forked s Camera of None \<Rightarrow> 0 | Some r' \<Rightarrow> r'), SIGTERM)])"
    using inv(2) assms(3) pids [of Stepper] pids [of Camera] nz [of Stepper]
    by (auto simp: exit_signals_def handle_exit_def split: option.splits)
  have "(p, SIGTERM) \<in> set (exit_signals d) \<or> (0, SIGTERM) \<in> set (exit_signals d)" if p: "p \<in> dr_children s" for p
  proof -
    obtain k where "p = pid_of k (dr_pids s)" "0 < p" using inv(1) p unfolding driver_inv_def by blast
    then show ?thesis using pids [of k] unfolding sig by (cases k) (auto split: option.splits)
  qed
  moreover have "\<forall>k. dr_forked s k = None \<longleftrightarrow> dr_thread s k = ToFork" using inv(1) by (simp add: driver_inv_def)
  ultimately show ?thesis using none zomb past sig by auto
qed

lemma drivers_lift:
  assumes "driver_step\<^sup>*\<^sup>* s s'" "reachable nng env fs_ok d" "dm_drv d = s"
  shows "reachable nng env fs_ok (d\<lparr>dm_drv := s'\<rparr>)"
  using assms
proof (induction rule: rtranclp_induct)
  case base
  then have same: "d\<lparr>dm_drv := s\<rparr> = d" by (cases d) auto
  show ?case unfolding same by (rule base(1))
next
  case (step t u)
  have "daemon_step nng fs_ok (d\<lparr>dm_drv := t\<rparr>) ((d\<lparr>dm_drv := t\<rparr>)\<lparr>dm_drv := u\<rparr>)"
    unfolding daemon_step_def using step(2) by (intro exI [of _ Driver_thread] daemon_act.driver) simp
  with reachable.step [OF step(3) [OF step(4,5)]] show ?case by simp
qed

text \<open>A run of the threads: both fork, and \<open>two_children\<close> is the state they are in then.\<close>

definition two_children :: "int \<Rightarrow> int \<Rightarrow> driver_system" where
  "two_children p q = \<lparr>dr_pids = \<lparr>sunneed_stepper_driver_pid = p, sunneed_camera_driver_pid = q\<rparr>,
     dr_thread = (\<lambda>_. Waiting), dr_running = {p, q}, dr_zombies = {},
     dr_forked = (\<lambda>k. Some (case k of Stepper \<Rightarrow> p | Camera \<Rightarrow> q)), dr_waited = {}\<rparr>"

definition one_waiting :: "int \<Rightarrow> int \<Rightarrow> driver_system" where
  "one_waiting p q = (two_children p q)\<lparr>dr_thread := (\<lambda>_. Waiting)(Stepper := Ended), dr_running := {p}, dr_waited := {q}\<rparr>"

definition none_waiting :: "int \<Rightarrow> int \<Rightarrow> driver_system" where
  "none_waiting p q = (one_waiting p q)\<lparr>dr_thread := (\<lambda>_. Ended), dr_running := {}, dr_waited := {p, q}\<rparr>"

definition fork_env :: "int \<Rightarrow> driver_env" where
  "fork_env p = \<lparr>rv_fork = p, rv_mkfifo = 0, rv_chmod = 0, rv_open = 5, rv_open_again = 5, exec_ok = True\<rparr>"

lemma both_fork:
  assumes "0 < p" "0 < q" "p \<noteq> q"
  shows "driver_step\<^sup>*\<^sup>* drivers_static (two_children p q)"
proof -
  let ?s = "drivers_static\<lparr>dr_pids := \<lparr>sunneed_stepper_driver_pid = p, sunneed_camera_driver_pid = 0\<rparr>,
      dr_thread := (dr_thread drivers_static)(Stepper := Waiting), dr_running := insert p (dr_running drivers_static),
      dr_forked := (dr_forked drivers_static)(Stepper := Some p)\<rparr>"
  have "driver_step drivers_static ?s"
    using assms driver_step.forks [of drivers_static Stepper "fork_env p" Map.empty]
    by (simp add: drivers_static_def dr_children_def sunneed_stepperMotor_driver_def fork_env_def)
  moreover have "driver_step ?s (?s\<lparr>dr_pids := \<lparr>sunneed_stepper_driver_pid = p, sunneed_camera_driver_pid = q\<rparr>,
      dr_thread := (dr_thread ?s)(Camera := Waiting), dr_running := insert q (dr_running ?s),
      dr_forked := (dr_forked ?s)(Camera := Some q)\<rparr>)"
    using assms driver_step.forks [of ?s Camera "fork_env q" Map.empty]
    by (simp add: drivers_static_def dr_children_def sunneed_camera_driver_def fork_env_def)
  moreover have "?s\<lparr>dr_pids := \<lparr>sunneed_stepper_driver_pid = p, sunneed_camera_driver_pid = q\<rparr>,
      dr_thread := (dr_thread ?s)(Camera := Waiting), dr_running := insert q (dr_running ?s),
      dr_forked := (dr_forked ?s)(Camera := Some q)\<rparr> = two_children p q"
    by (auto simp: drivers_static_def two_children_def fun_eq_iff driver_cases)
  ultimately show ?thesis by (simp add: converse_rtranclp_into_rtranclp)
qed

text \<open>The camera driver ends, and the thread of the stepper driver waits for it.\<close>

lemma wrong_wait:
  assumes "p \<noteq> q"
  shows "driver_step\<^sup>*\<^sup>* (two_children p q) (one_waiting p q)"
proof -
  let ?s = "(two_children p q)\<lparr>dr_running := dr_running (two_children p q) - {q},
      dr_zombies := insert q (dr_zombies (two_children p q))\<rparr>"
  have "driver_step (two_children p q) ?s" by (rule driver_step.child_ends) (simp add: two_children_def)
  moreover have "driver_step ?s (?s\<lparr>dr_thread := (dr_thread ?s)(Stepper := Ended), dr_zombies := dr_zombies ?s - {q},
      dr_waited := insert q (dr_waited ?s)\<rparr>)"
    by (rule driver_step.wait_returns) (simp_all add: two_children_def)
  moreover have "?s\<lparr>dr_thread := (dr_thread ?s)(Stepper := Ended), dr_zombies := dr_zombies ?s - {q},
      dr_waited := insert q (dr_waited ?s)\<rparr> = one_waiting p q"
    using assms by (auto simp: two_children_def one_waiting_def)
  ultimately show ?thesis by (simp add: converse_rtranclp_into_rtranclp)
qed

lemma last_wait: "driver_step\<^sup>*\<^sup>* (one_waiting p q) (none_waiting p q)"
proof -
  let ?s = "(one_waiting p q)\<lparr>dr_running := dr_running (one_waiting p q) - {p},
      dr_zombies := insert p (dr_zombies (one_waiting p q))\<rparr>"
  have "driver_step (one_waiting p q) ?s" by (rule driver_step.child_ends) (simp add: one_waiting_def)
  moreover have "driver_step ?s (?s\<lparr>dr_thread := (dr_thread ?s)(Camera := Ended), dr_zombies := dr_zombies ?s - {p},
      dr_waited := insert p (dr_waited ?s)\<rparr>)"
    by (rule driver_step.wait_returns) (simp_all add: one_waiting_def)
  moreover have "?s\<lparr>dr_thread := (dr_thread ?s)(Camera := Ended), dr_zombies := dr_zombies ?s - {p},
      dr_waited := insert p (dr_waited ?s)\<rparr> = none_waiting p q"
    by (auto simp: two_children_def one_waiting_def none_waiting_def fun_eq_iff driver_cases)
  ultimately show ?thesis by (simp add: converse_rtranclp_into_rtranclp)
qed

lemma started_drivers:
  assumes "start_condition nng env"
  obtains d where "reachable nng env fs_ok d" "dm_drv d = drivers_static"
  using main_start [of nng env] assms reachable.started unfolding start_condition_def by metis

theorem reachable_children_witness:
  "\<exists>d. reachable demo_nng demo_main (\<lambda>_. True) d \<and> dm_drv d = two_children 100 200 \<and>
     exit_signals d = [(100, SIGTERM), (200, SIGTERM)]"
proof -
  obtain d where d: "reachable demo_nng demo_main (\<lambda>_. True) d" "dm_drv d = drivers_static"
    by (rule started_drivers [OF demo_start])
  have "driver_step\<^sup>*\<^sup>* drivers_static (two_children 100 200)" by (rule both_fork) simp_all
  from drivers_lift [OF this d] have r: "reachable demo_nng demo_main (\<lambda>_. True) (d\<lparr>dm_drv := two_children 100 200\<rparr>)" .
  from reachable_children [OF demo_start r] r show ?thesis
    by (intro exI [of _ "d\<lparr>dm_drv := two_children 100 200\<rparr>"]) (simp add: two_children_def)
qed

text \<open>
  C35. The threads wait for the wrong child. Each driver thread calls \<^verbatim>\<open>wait\<close>, not \<^verbatim>\<open>waitpid\<close>, and
  never forgets a process identifier. So the thread of the stepper driver can report that its
  driver has exited while that driver is running; and when both drivers have ended and were
  waited for, the exit handler still sends the signal TERM to their process identifiers, which
  the system may have given to other processes.
\<close>

theorem driver_threads_confused:
  assumes "start_condition nng env" "0 < p" "0 < q" "p \<noteq> q"
  shows "(\<exists>d. reachable nng env fs_ok d \<and> dr_thread (dm_drv d) Stepper = Ended \<and>
      pid_of Stepper (dr_pids (dm_drv d)) = p \<and> p \<in> dr_running (dm_drv d)) \<and>
    (\<exists>d. reachable nng env fs_ok d \<and> dr_children (dm_drv d) = {} \<and>
      exit_signals d = [(p, SIGTERM), (q, SIGTERM)])"
proof -
  obtain d where d: "reachable nng env fs_ok d" "dm_drv d = drivers_static"
    using assms(1) by (rule started_drivers)
  have one: "driver_step\<^sup>*\<^sup>* drivers_static (one_waiting p q)"
    using both_fork [OF assms(2-4)] wrong_wait [OF assms(4)] by (rule rtranclp_trans)
  have none: "driver_step\<^sup>*\<^sup>* drivers_static (none_waiting p q)" using one last_wait by (rule rtranclp_trans)
  have "reachable nng env fs_ok (d\<lparr>dm_drv := one_waiting p q\<rparr>)" using one d by (rule drivers_lift)
  moreover have r: "reachable nng env fs_ok (d\<lparr>dm_drv := none_waiting p q\<rparr>)" using none d by (rule drivers_lift)
  moreover have "dm_atexit d" using reachable_inv [OF assms(1) d(1)] by (simp add: daemon_inv_def)
  then have "exit_signals (d\<lparr>dm_drv := none_waiting p q\<rparr>) = [(p, SIGTERM), (q, SIGTERM)]"
    using assms(2) by (simp add: exit_signals_def handle_exit_def none_waiting_def one_waiting_def two_children_def)
  ultimately show ?thesis
    by (intro conjI exI [of _ "d\<lparr>dm_drv := one_waiting p q\<rparr>"] exI [of _ "d\<lparr>dm_drv := none_waiting p q\<rparr>"])
      (simp_all add: none_waiting_def one_waiting_def two_children_def dr_children_def)
qed

theorem driver_threads_confused_witness:
  "\<exists>d. reachable demo_nng demo_main (\<lambda>_. True) d \<and> dr_children (dm_drv d) = {} \<and>
     exit_signals d = [(100, SIGTERM), (200, SIGTERM)]"
  using driver_threads_confused [OF demo_start, of 100 200 "\<lambda>_. True"] by simp

end
