(* ===== verification/Sunneed_Client.thy ===== *)
theory Sunneed_Client
  imports Sunneed_Listener
begin

text \<open>
  The client library and the overlay that is preloaded into the programs under its control:
  \<^verbatim>\<open>src/src/client/sunneed_client.c\<close>, \<^verbatim>\<open>sunneed_client.h\<close>, \<^verbatim>\<open>src/src/overlay/sunneed_overlay.c\<close> and
  \<^verbatim>\<open>sunneed_overlay.h\<close>, and the example programs of \<^verbatim>\<open>src/src/util\<close>.

  The client talks to a peer, the daemon, whose state \<open>'p\<close> is threaded through the calls: a
  computation of the client is a \<open>talk\<close>, which takes the state of the peer and returns its own
  outcome together with the state that the requests it has sent have left the peer in. The
  state is there on every branch, so that the requests sent before an exit or a fault are not
  lost. \<open>client_env\<close> holds what is outside the sources: the results of the \<open>nng\<close> calls, the
  reaction of the peer to a request (the answer is \<open>NoAnswer\<close> when none comes and the client
  waits for ever, \<open>Garbled\<close> when its bytes cannot be unpacked), the byte in front of a certain
  string literal, and the real \<open>open\<close> and \<open>write\<close> that the overlay shadows.
  The macro \<open>FATAL\<close> and the error function \<open>nngfatal\<close> end the process, which is \<open>Exited\<close>.
  Of what is printed only the table of locked paths is modelled.
\<close>

section \<open>State and parameters\<close>

record cl_entry =
  cl_path :: "cstr option"
  cl_fd :: int

type_synonym client_state = "cl_entry list"

definition locked_paths_static :: client_state where
  "locked_paths_static = replicate MAX_LOCKED_FILES \<lparr>cl_path = None, cl_fd = 0\<rparr>"

datatype answer = NoAnswer | Garbled | Answered response

record 'p client_env =
  c_rv_req0_open :: int
  c_rv_dial :: int
  c_malloc :: bool
  c_rv_msg_alloc :: int
  c_rv_msg_append :: int
  c_rv_sendmsg :: int
  c_rv_recvmsg :: int
  c_before_literal :: "byte option"
  c_peer :: "request \<Rightarrow> 'p \<Rightarrow> answer \<times> 'p"
  sys_open :: "cstr option \<Rightarrow> int \<Rightarrow> int \<Rightarrow> int"
  sys_write :: "int \<Rightarrow> byte list \<Rightarrow> int"

text \<open>Computations that talk to the peer.\<close>

type_synonym ('p, 'a) talk = "'p \<Rightarrow> 'a outcome \<times> 'p"

definition quiet :: "'a outcome \<Rightarrow> ('p, 'a) talk" where
  "quiet r p = (r, p)"

definition tbind :: "('p, 'a) talk \<Rightarrow> ('a \<Rightarrow> ('p, 'b) talk) \<Rightarrow> ('p, 'b) talk" where
  "tbind m f p =
     (case m p of (r, p') \<Rightarrow>
        (case r of
           Done x \<Rightarrow> f x p'
         | Exited c \<Rightarrow> (Exited c, p')
         | Fault e \<Rightarrow> (Fault e, p')
         | Blocked \<Rightarrow> (Blocked, p')))"

text \<open>The field numbers of the message types of a response.\<close>

fun message_type_case :: "response_body \<Rightarrow> nat" where
  "message_type_case RespNotSet = 0"
| "message_type_case RespGeneric = 2"
| "message_type_case RespDevice = 3"
| "message_type_case (RespOpenFile p) = 4"
| "message_type_case (RespRegisterClient ps) = 5"
| "message_type_case (RespCallWrite e n) = 6"

section \<open>Requests and responses\<close>

definition FATAL :: "int \<Rightarrow> 'a outcome" where
  "FATAL code = Exited code"

definition nngfatal :: error_func where
  "nngfatal func rv = FATAL rv"

text \<open>
  The statement \<^verbatim>\<open>SUNNEED_NNG_TRY(call, != 0, ...)\<close> and what follows it. The reporting function
  \<open>nngfatal\<close>, which \<open>sunneed_client_init\<close> sets first, does not return, so the build type and the
  name of the call make no difference.
\<close>

definition nng_try :: "int \<Rightarrow> ('p, 'a) talk \<Rightarrow> ('p, 'a) talk" where
  "nng_try rv rest = tbind (quiet (SUNNEED_NNG_TRY False (Some nngfatal) [] rv nonzero)) (\<lambda>_. rest)"

text \<open>
  A request that is sent reaches the peer, and the answer of the peer is on its way; it is what
  \<open>receive_response\<close> finds when it asks the library for a message.
\<close>

definition send_request :: "'p client_env \<Rightarrow> request \<Rightarrow> ('p, answer) talk" where
  "send_request env req =
     (if \<not> c_malloc env then quiet (FATAL (-1))
      else nng_try (c_rv_msg_alloc env) (nng_try (c_rv_msg_append env) (nng_try (c_rv_sendmsg env)
        (\<lambda>p. case c_peer env req p of (answer, p') \<Rightarrow> (Done answer, p')))))"

text \<open>\<open>None\<close> is NULL.\<close>

definition receive_response :: "'p client_env \<Rightarrow> answer \<Rightarrow> nat \<Rightarrow> ('p, response option) talk" where
  "receive_response env answer message_type =
     nng_try (c_rv_recvmsg env)
       (quiet (case answer of
          NoAnswer \<Rightarrow> Blocked
        | Garbled \<Rightarrow> Fault NullDeref
        | Answered resp \<Rightarrow>
            if resp_status resp \<noteq> 0 then Done None
            else if message_type_case (resp_body resp) \<noteq> message_type then FATAL (-1)
            else Done (Some resp)))"

definition exchange :: "'p client_env \<Rightarrow> request \<Rightarrow> nat \<Rightarrow> ('p, response option) talk" where
  "exchange env req message_type = tbind (send_request env req) (\<lambda>answer. receive_response env answer message_type)"

section \<open>The client library\<close>

text \<open>
  The message about a path is printed by \<^verbatim>\<open>client_printf(-1, ...)\<close>. The macro pastes its first
  argument behind a string literal, so the format is a pointer to the byte in front of the
  literal. To read that byte is undefined; \<open>c_before_literal\<close> is \<open>None\<close> for this reading of the
  standard, and otherwise the byte that the memory holds there. A zero byte prints nothing, a
  percent sign makes a conversion that does not exist out of the escape character behind it, and
  any other byte is printed with the literal behind it.
\<close>

definition printf_before_literal :: "'p client_env \<Rightarrow> unit outcome" where
  "printf_before_literal env =
     (case c_before_literal env of
        None \<Rightarrow> Fault OutOfBounds
      | Some b \<Rightarrow> if b = of_char (CHR ''%'') then Fault BadFormat else Done ())"

fun store_locked_paths :: "'p client_env \<Rightarrow> nat \<Rightarrow> cstr list \<Rightarrow> client_state \<Rightarrow> client_state outcome" where
  "store_locked_paths env i [] st = Done st"
| "store_locked_paths env i (p # ps) st =
     (if length st \<le> i then Fault OutOfBounds
      else let st' = st[i := (st ! i)\<lparr>cl_path := Some p\<rparr>]
           in obind (printf_before_literal env) (\<lambda>_. store_locked_paths env (Suc i) ps st'))"

fun registered_paths :: "response_body \<Rightarrow> cstr list" where
  "registered_paths (RespRegisterClient ps) = ps"
| "registered_paths b = []"

definition sunneed_client_init :: "'p client_env \<Rightarrow> cstr \<Rightarrow> client_state \<Rightarrow> ('p, int \<times> client_state) talk" where
  "sunneed_client_init env name st =
     nng_try (c_rv_req0_open env) (nng_try (c_rv_dial env)
       (if \<not> c_malloc env then quiet (FATAL (-1))
        else tbind (exchange env (RegisterClient name) 5) (\<lambda>resp.
          case resp of
            None \<Rightarrow> quiet (Fault NullDeref)
          | Some r \<Rightarrow> quiet (obind (store_locked_paths env 0 (registered_paths (resp_body r)) st) (\<lambda>st'. Done (0, st'))))))"

fun opened_path :: "response_body \<Rightarrow> cstr" where
  "opened_path (RespOpenFile p) = p"
| "opened_path b = []"

definition sunneed_client_fetch_locked_file_path ::
    "'p client_env \<Rightarrow> cstr \<Rightarrow> int \<Rightarrow> int \<Rightarrow> ('p, cstr option) talk" where
  "sunneed_client_fetch_locked_file_path env pathname flags mode =
     (if \<not> c_malloc env then quiet (FATAL (-1))
      else tbind (exchange env (OpenFile pathname flags mode) 4) (\<lambda>resp.
        case resp of
          None \<Rightarrow> quiet (Done None)
        | Some r \<Rightarrow> quiet (Done (Some (opened_path (resp_body r))))))"

definition check_stop :: "cstr \<Rightarrow> cl_entry \<Rightarrow> bool" where
  "check_stop pathname e \<longleftrightarrow>
     (case cl_path e of None \<Rightarrow> True | Some p \<Rightarrow> strncmp pathname p (length pathname) = 0)"

definition sunneed_client_check_locked_file :: "cstr \<Rightarrow> client_state \<Rightarrow> int" where
  "sunneed_client_check_locked_file pathname st =
     (case first_index (check_stop pathname) st of
        None \<Rightarrow> -1
      | Some i \<Rightarrow> if cl_path (st ! i) = None then -1 else int i)"

definition sunneed_client_on_locked_path_open ::
    "int \<Rightarrow> cstr option \<Rightarrow> int \<Rightarrow> client_state \<Rightarrow> (int \<times> client_state) outcome" where
  "sunneed_client_on_locked_path_open i pathname fd st =
     (if i < 0 \<or> int MAX_LOCKED_FILES \<le> i then FATAL (-1)
      else if pathname = None then FATAL (-1)
      else if fd \<le> 0 then FATAL (-1)
      else Done (0, st[nat i := \<lparr>cl_path = pathname, cl_fd = fd\<rparr>]))"

definition sunneed_client_fd_is_locked :: "int \<Rightarrow> client_state \<Rightarrow> bool" where
  "sunneed_client_fd_is_locked fd st \<longleftrightarrow> first_index (\<lambda>e. cl_fd e = fd) st \<noteq> None"

text \<open>\<^verbatim>\<open>strncpy\<close> on a buffer of bytes: it stops at the first zero and fills up with zeros.\<close>

definition strncpy_bytes :: "byte list \<Rightarrow> byte list" where
  "strncpy_bytes data =
     takeWhile (\<lambda>b. b \<noteq> 0) data @ replicate (length data - length (takeWhile (\<lambda>b. b \<noteq> 0) data)) 0"

definition sunneed_client_remote_write ::
    "'p client_env \<Rightarrow> int \<Rightarrow> byte list \<Rightarrow> client_state \<Rightarrow> ('p, int) talk" where
  "sunneed_client_remote_write env fd data st =
     (case (case first_index (\<lambda>e. cl_fd e = fd) st of None \<Rightarrow> None | Some i \<Rightarrow> cl_path (st ! i)) of
        None \<Rightarrow> quiet (FATAL (-1))
      | Some dummy_path \<Rightarrow>
          if \<not> c_malloc env then quiet (FATAL (-1))
          else tbind (exchange env (Write dummy_path (strncpy_bytes data)) 6) (\<lambda>resp.
            quiet (if resp = None then FATAL (-1) else Done 0)))"

definition sunneed_client_disconnect :: "'p client_env \<Rightarrow> ('p, int) talk" where
  "sunneed_client_disconnect env =
     tbind (exchange env UnregisterClient 2) (\<lambda>resp. quiet (if resp = None then FATAL (-1) else Done 0))"

text \<open>What the library prints: every line begins with a mark. The table is printed without its unused entries.\<close>

definition client_printf :: "cstr \<Rightarrow> cstr" where
  "client_printf msg = [CHR 0x1B] @ ''[38;5;240mclient:'' @ [CHR 0x1B] @ ''[0m '' @ msg"

definition sunneed_client_debug_print_locked_path_table :: "client_state \<Rightarrow> cstr" where
  "sunneed_client_debug_print_locked_path_table st =
     client_printf (''locked files: ['' @ [CHR 0x0A]) @
     concat (map (\<lambda>e. case cl_path e of
         None \<Rightarrow> []
       | Some path \<Rightarrow> client_printf (''    FD '' @ dec_int (cl_fd e) @ '' : '' @ [CHR 0x27] @ path @ [CHR 0x27, CHR 0x0A])) st) @
     client_printf ('']'' @ [CHR 0x0A])"

section \<open>The overlay\<close>

definition on_load :: "'p client_env \<Rightarrow> client_state \<Rightarrow> ('p, client_state) talk" where
  "on_load env st = tbind (sunneed_client_init env ''TODO'' st) (\<lambda>r. quiet (Done (snd r)))"

definition on_unload :: "'p client_env \<Rightarrow> ('p, unit) talk" where
  "on_unload env = tbind (sunneed_client_disconnect env) (\<lambda>_. quiet (Done ()))"

definition overlay_open :: "'p client_env \<Rightarrow> cstr \<Rightarrow> int \<Rightarrow> int \<Rightarrow> client_state \<Rightarrow> ('p, int \<times> client_state) talk" where
  "overlay_open env pathname flags mode st =
     (let locked = sunneed_client_check_locked_file pathname st
      in tbind (if locked < 0 then quiet (Done (Some pathname))
                else sunneed_client_fetch_locked_file_path env pathname flags mode)
           (\<lambda>pathname'.
              let fd = sys_open env pathname' flags mode
              in quiet (obind (sunneed_client_on_locked_path_open locked pathname' fd st) (\<lambda>r. Done (fd, snd r)))))"

text \<open>The result of the real \<open>write\<close> is kept in an \<open>int\<close>.\<close>

definition overlay_write :: "'p client_env \<Rightarrow> int \<Rightarrow> byte list \<Rightarrow> client_state \<Rightarrow> ('p, int) talk" where
  "overlay_write env fd buf st =
     (if \<not> sunneed_client_fd_is_locked fd st
      then quiet (Done (int_of_u64 (of_int (sys_write env fd buf))))
      else tbind (sunneed_client_remote_write env fd buf st) (\<lambda>_. quiet (Done 0)))"

section \<open>The example programs\<close>

text \<open>
  The programs of \<^verbatim>\<open>src/src/util\<close> that run under the overlay: each opens one file, writes to it
  and ignores what \<open>write\<close> returns. Three of them call \<open>open\<close> with two arguments, and the
  overlay then reads a third one that was not passed; it is the argument \<open>mode\<close>.
  The overlay does not shadow \<open>close\<close>, so closing the dummy changes nothing in its table.
\<close>

primrec write_all :: "'p client_env \<Rightarrow> byte list list \<Rightarrow> int \<Rightarrow> client_state \<Rightarrow> ('p, unit) talk" where
  "write_all env [] fd st = quiet (Done ())"
| "write_all env (b # bs) fd st = tbind (overlay_write env fd b st) (\<lambda>_. write_all env bs fd st)"

definition O_WRONLY :: int where
  "O_WRONLY = 1"

definition O_CREAT_RDWR :: int where
  "O_CREAT_RDWR = 66"

definition overlay_tester :: "'p client_env \<Rightarrow> client_state \<Rightarrow> ('p, int) talk" where
  "overlay_tester env st =
     tbind (overlay_open env ''/tmp/test'' O_CREAT_RDWR 438 st) (\<lambda>(fd, st').
       if fd = -1 then quiet (Done (-1))
       else tbind (write_all env [[102, 111, 111]] fd st') (\<lambda>_. quiet (Done 0)))"

text \<open>The bytes of an \<open>int\<close> in memory, least significant first.\<close>

definition int_bytes :: "int \<Rightarrow> byte list" where
  "int_bytes n = map (\<lambda>i. of_int (n div 256 ^ i)) [0..<4]"

definition stepper_test :: "int \<Rightarrow> 'p client_env \<Rightarrow> client_state \<Rightarrow> ('p, int) talk" where
  "stepper_test mode env st =
     tbind (overlay_open env ''/dev/stepper'' O_WRONLY mode st) (\<lambda>(fd, st').
       if fd = -1 then quiet (Done (-1))
       else tbind (write_all env [int_bytes 90] fd st') (\<lambda>_. quiet (Done 0)))"

definition stepper_tester :: "int \<Rightarrow> 'p client_env \<Rightarrow> client_state \<Rightarrow> ('p, int) talk" where
  "stepper_tester mode env st =
     tbind (overlay_open env ''/tmp/stepper'' O_WRONLY mode st) (\<lambda>(fd, st').
       if fd = -1 then quiet (Done (-1))
       else tbind (write_all env [int_bytes 200, int_bytes 300, int_bytes 90] fd st') (\<lambda>_. quiet (Done 0)))"

definition ascii_bytes :: "cstr \<Rightarrow> byte list" where
  "ascii_bytes s = map of_char s"

definition cam_test :: "int \<Rightarrow> 'p client_env \<Rightarrow> client_state \<Rightarrow> ('p, int) talk" where
  "cam_test mode env st =
     tbind (overlay_open env ''/tmp/camera'' O_WRONLY mode st) (\<lambda>(fd, st').
       if fd = -1 then quiet (Exited 1)
       else tbind (write_all env
              [ascii_bytes (''start_preview()'' @ [CHR 0x0A]),
               ascii_bytes (''capture('' @ [CHR 0x27] @ ''img.jpg'' @ [CHR 0x27] @ '')'' @ [CHR 0x0A]),
               ascii_bytes (''stop_preview()'' @ [CHR 0x0A])] fd st') (\<lambda>_. quiet (Done 0)))"

text \<open>
  The common form of the four programs; \<open>failed\<close> is what a program does when \<open>open\<close> fails.
\<close>

definition one_file_program ::
    "cstr \<Rightarrow> int \<Rightarrow> int \<Rightarrow> int outcome \<Rightarrow> byte list list \<Rightarrow> 'p client_env \<Rightarrow> client_state \<Rightarrow> ('p, int) talk" where
  "one_file_program path flags mode failed bufs env st =
     tbind (overlay_open env path flags mode st) (\<lambda>(fd, st').
       if fd = -1 then quiet failed else tbind (write_all env bufs fd st') (\<lambda>_. quiet (Done 0)))"

text \<open>
  A program with the overlay preloaded: constructor, \<open>main\<close>, destructor. The destructor also
  runs when the program leaves by \<open>exit\<close>, but not when the constructor does: the destructors
  are registered just before \<open>main\<close> is called.
\<close>

definition run_preloaded :: "'p client_env \<Rightarrow> (client_state \<Rightarrow> ('p, int) talk) \<Rightarrow> ('p, int) talk" where
  "run_preloaded env prog =
     tbind (on_load env locked_paths_static) (\<lambda>st p.
       case prog st p of (r, p') \<Rightarrow>
         (case r of
            Done ret \<Rightarrow> tbind (on_unload env) (\<lambda>_. quiet r) p'
          | Exited code \<Rightarrow> tbind (on_unload env) (\<lambda>_. quiet r) p'
          | _ \<Rightarrow> (r, p')))"

section \<open>Lemmas\<close>

lemma nng_try_eq: "nng_try rv rest = (if rv \<noteq> 0 then quiet (FATAL rv) else rest)"
  by (auto simp: nng_try_def tbind_def quiet_def try_defs nngfatal_def FATAL_def fun_eq_iff)

lemma quiet_bind [simp]: "tbind (quiet (Done x)) f = f x"
  by (simp add: tbind_def quiet_def fun_eq_iff)

lemma tbind_run: "m p = (Done x, p') \<Longrightarrow> tbind m f p = f x p'"
  by (simp add: tbind_def)

lemma example_programs:
  "overlay_tester = one_file_program ''/tmp/test'' O_CREAT_RDWR 438 (Done (-1)) [[102, 111, 111]]"
  "stepper_test mode = one_file_program ''/dev/stepper'' O_WRONLY mode (Done (-1)) [int_bytes 90]"
  "stepper_tester mode = one_file_program ''/tmp/stepper'' O_WRONLY mode (Done (-1))
     [int_bytes 200, int_bytes 300, int_bytes 90]"
  "cam_test mode = one_file_program ''/tmp/camera'' O_WRONLY mode (Exited 1)
     [ascii_bytes (''start_preview()'' @ [CHR 0x0A]),
      ascii_bytes (''capture('' @ [CHR 0x27] @ ''img.jpg'' @ [CHR 0x27] @ '')'' @ [CHR 0x0A]),
      ascii_bytes (''stop_preview()'' @ [CHR 0x0A])]"
  by (simp_all only: fun_eq_iff one_file_program_def overlay_tester_def stepper_test_def stepper_tester_def
      cam_test_def simp_thms)

definition comm_ok :: "'p client_env \<Rightarrow> bool" where
  "comm_ok env \<longleftrightarrow> c_rv_req0_open env = 0 \<and> c_rv_dial env = 0 \<and> c_malloc env \<and> c_rv_msg_alloc env = 0 \<and>
     c_rv_msg_append env = 0 \<and> c_rv_sendmsg env = 0 \<and> c_rv_recvmsg env = 0"

definition print_ok :: "'p client_env \<Rightarrow> bool" where
  "print_ok env \<longleftrightarrow> printf_before_literal env = Done ()"

lemma exchange_ok:
  assumes "comm_ok env"
  shows "exchange env req k p =
    (case c_peer env req p of (answer, p') \<Rightarrow>
       ((case answer of
           NoAnswer \<Rightarrow> Blocked
         | Garbled \<Rightarrow> Fault NullDeref
         | Answered r \<Rightarrow> if resp_status r \<noteq> 0 then Done None
             else if message_type_case (resp_body r) \<noteq> k then Exited (-1) else Done (Some r)), p'))"
  using assms
  by (simp add: comm_ok_def exchange_def send_request_def receive_response_def nng_try_eq FATAL_def
      tbind_def quiet_def split: answer.split prod.split)

text \<open>The table after the registration: the paths that were sent, in their order.\<close>

definition cl_of :: "cstr list \<Rightarrow> client_state" where
  "cl_of ps = map (\<lambda>p. \<lparr>cl_path = Some p, cl_fd = 0\<rparr>) ps @
     replicate (MAX_LOCKED_FILES - length ps) \<lparr>cl_path = None, cl_fd = 0\<rparr>"

text \<open>The printed table has one line for each path that was sent.\<close>

lemma print_table_cl_of:
  "sunneed_client_debug_print_locked_path_table (cl_of ps) =
     client_printf (''locked files: ['' @ [CHR 0x0A]) @
     concat (map (\<lambda>p. client_printf (''    FD 0 : '' @ [CHR 0x27] @ p @ [CHR 0x27, CHR 0x0A])) ps) @
     client_printf ('']'' @ [CHR 0x0A])"
proof -
  have "dec_int 0 = ''0''" by (simp add: dec_int_def dec.simps [of 0] digit_char_def char_of_def bit_Suc_0_iff)
  then show ?thesis
    by (simp add: sunneed_client_debug_print_locked_path_table_def cl_of_def comp_def)
qed

lemma cl_of_length: "length ps \<le> MAX_LOCKED_FILES \<Longrightarrow> length (cl_of ps) = MAX_LOCKED_FILES"
  by (simp add: cl_of_def)

lemma cl_of_snoc:
  assumes "length ps < MAX_LOCKED_FILES"
  shows "(cl_of ps)[length ps := ((cl_of ps) ! length ps)\<lparr>cl_path := Some p\<rparr>] = cl_of (ps @ [p])"
proof -
  obtain k where k: "MAX_LOCKED_FILES - length ps = Suc k" using assms by (metis Suc_diff_Suc)
  then have "MAX_LOCKED_FILES - Suc (length ps) = k" by simp
  with k show ?thesis by (simp add: cl_of_def list_update_append nth_append)
qed

lemma store_locked_paths_eq:
  "print_ok env \<Longrightarrow> length (qs @ ps) \<le> MAX_LOCKED_FILES \<Longrightarrow>
   store_locked_paths env (length qs) ps (cl_of qs) = Done (cl_of (qs @ ps))"
proof (induction ps arbitrary: qs)
  case Nil
  then show ?case by simp
next
  case (Cons p ps)
  have "length qs < MAX_LOCKED_FILES" using Cons.prems by simp
  with Cons.IH [of "qs @ [p]"] Cons.prems show ?case by (simp add: cl_of_length cl_of_snoc print_ok_def Let_def)
qed

lemma store_static:
  "print_ok env \<Longrightarrow> length ps \<le> MAX_LOCKED_FILES \<Longrightarrow> store_locked_paths env 0 ps locked_paths_static = Done (cl_of ps)"
  using store_locked_paths_eq [of env "[]" ps] by (simp add: cl_of_def locked_paths_static_def)

lemma client_init_eq:
  assumes "comm_ok env" "print_ok env" "length ps \<le> MAX_LOCKED_FILES"
    and "c_peer env (RegisterClient name) w = (Answered \<lparr>resp_status = 0, resp_body = RespRegisterClient ps\<rparr>, w')"
  shows "sunneed_client_init env name locked_paths_static w = (Done (0, cl_of ps), w')"
proof -
  have "exchange env (RegisterClient name) 5 w = (Done (Some \<lparr>resp_status = 0, resp_body = RespRegisterClient ps\<rparr>), w')"
    using assms(1,4) by (simp add: exchange_ok)
  then show ?thesis
    using assms(1) store_static [OF assms(2,3)]
    by (simp add: sunneed_client_init_def nng_try_eq comm_ok_def tbind_def quiet_def)
qed

lemma check_stop_prefix:
  "check_stop p e \<longleftrightarrow> (case cl_path e of None \<Rightarrow> True | Some q \<Rightarrow> prefix p q)"
  by (simp add: check_stop_def strncmp_length_left split: option.split)

lemma check_cl_of:
  "sunneed_client_check_locked_file p (cl_of ps) = (case first_index (prefix p) ps of None \<Rightarrow> -1 | Some i \<Rightarrow> int i)"
proof -
  let ?xs = "map (\<lambda>p. \<lparr>cl_path = Some p, cl_fd = 0\<rparr>) ps"
  have hit: "first_index (check_stop p) ?xs = first_index (prefix p) ps"
    by (simp add: first_index_map check_stop_prefix)
  show ?thesis
  proof (cases "first_index (prefix p) ps")
    case None
    then show ?thesis
      using hit by (auto simp: sunneed_client_check_locked_file_def cl_of_def first_index_append
          first_index_replicate nth_append check_stop_prefix)
  next
    case (Some i)
    then have "i < length ps" using first_index_SomeD by blast
    then show ?thesis
      using hit Some by (simp add: sunneed_client_check_locked_file_def cl_of_def first_index_append nth_append)
  qed
qed

lemma check_nonneg_iff: "0 \<le> sunneed_client_check_locked_file p (cl_of ps) \<longleftrightarrow> (\<exists>q \<in> set ps. prefix p q)"
  using first_index_None_iff [of "prefix p" ps] by (cases "first_index (prefix p) ps") (auto simp: check_cl_of)

lemma replicate_id_iff: "replicate (length xs) x = xs \<longleftrightarrow> (\<forall>y \<in> set xs. y = x)"
  by (induction xs) auto

text \<open>\<open>strncpy\<close> keeps a buffer exactly when nothing but zeros follows its first zero.\<close>

lemma strncpy_bytes_id_iff:
  "strncpy_bytes data = data \<longleftrightarrow> (\<forall>b \<in> set (dropWhile (\<lambda>b. b \<noteq> 0) data). b = 0)"
proof -
  let ?t = "takeWhile (\<lambda>b. b \<noteq> 0) data" and ?d = "dropWhile (\<lambda>b. b \<noteq> 0) data"
  have "length ?t + length ?d = length data" by (metis length_append takeWhile_dropWhile_id)
  then have len: "length data - length ?t = length ?d" by simp
  have "strncpy_bytes data = data \<longleftrightarrow> ?t @ replicate (length ?d) 0 = ?t @ ?d"
    unfolding strncpy_bytes_def len by (simp only: takeWhile_dropWhile_id)
  also have "\<dots> \<longleftrightarrow> replicate (length ?d) 0 = ?d" by (rule same_append_eq)
  also have "\<dots> \<longleftrightarrow> (\<forall>b \<in> set ?d. b = 0)"
    by (rule replicate_id_iff)
  finally show ?thesis .
qed

lemma strncpy_bytes_length [simp]: "length (strncpy_bytes data) = length data"
proof -
  have "length (takeWhile (\<lambda>b. b \<noteq> 0) data) \<le> length data" by (rule length_takeWhile_le)
  then show ?thesis by (simp add: strncpy_bytes_def)
qed

section \<open>Properties of the client library\<close>

definition demo_client :: "(request \<Rightarrow> 'p \<Rightarrow> answer \<times> 'p) \<Rightarrow> 'p client_env" where
  "demo_client peer = \<lparr>c_rv_req0_open = 0, c_rv_dial = 0, c_malloc = True, c_rv_msg_alloc = 0, c_rv_msg_append = 0,
     c_rv_sendmsg = 0, c_rv_recvmsg = 0, c_before_literal = Some 0, c_peer = peer,
     sys_open = (\<lambda>_ _ _. 3), sys_write = (\<lambda>_ bs. int (length bs))\<rparr>"

text \<open>A peer that keeps the requests it got.\<close>

definition demo_peer :: "request \<Rightarrow> request list \<Rightarrow> answer \<times> request list" where
  "demo_peer req reqs =
     (case req of
        RegisterClient n \<Rightarrow> Answered \<lparr>resp_status = 0, resp_body = RespRegisterClient [''/tmp/camera'', ''/tmp/stepper'']\<rparr>
      | OpenFile p f m \<Rightarrow> Answered \<lparr>resp_status = 0, resp_body = RespOpenFile ''locked_aaaaaa''\<rparr>
      | Write d bs \<Rightarrow> Answered \<lparr>resp_status = 0, resp_body = RespCallWrite 0 (of_nat (length bs))\<rparr>
      | UnregisterClient \<Rightarrow> Answered \<lparr>resp_status = 0, resp_body = RespGeneric\<rparr>
      | _ \<Rightarrow> NoAnswer, reqs @ [req])"

lemma demo_client_ok: "comm_ok (demo_client peer)" "print_ok (demo_client peer)"
  by (simp_all add: comm_ok_def print_ok_def printf_before_literal_def demo_client_def)

lemma demo_client_simps [simp]:
  "c_peer (demo_client peer) = peer" "sys_open (demo_client peer) path flags mode = 3"
  by (simp_all add: demo_client_def)

text \<open>
  After its initialisation the client knows the locked paths. When the registration is
  answered with a list of at most 1024 paths, initialisation returns 0, and a path counts as
  locked afterwards exactly when it is a prefix of one of them; the first such entry is
  returned.
\<close>

lemma client_init_learns_paths:
  assumes "comm_ok env" "print_ok env" "length ps \<le> MAX_LOCKED_FILES"
    and "c_peer env (RegisterClient name) w = (Answered \<lparr>resp_status = 0, resp_body = RespRegisterClient ps\<rparr>, w')"
  shows "\<exists>st. sunneed_client_init env name locked_paths_static w = (Done (0, st), w') \<and>
    (\<forall>p. sunneed_client_check_locked_file p st = (case first_index (prefix p) ps of None \<Rightarrow> -1 | Some i \<Rightarrow> int i))"
  using client_init_eq [OF assms] check_cl_of by blast

text \<open>
  A registration that is refused (the daemon has four clients already) crashes the program:
  the NULL that stands for the failure is dereferenced.
\<close>

lemma client_init_refused_faults:
  assumes "comm_ok env" "c_peer env (RegisterClient name) w = (Answered r, w')" "resp_status r \<noteq> 0"
  shows "sunneed_client_init env name st w = (Fault NullDeref, w')"
proof -
  have "exchange env (RegisterClient name) 5 w = (Done None, w')" using assms by (simp add: exchange_ok)
  then show ?thesis
    using assms(1) by (simp add: sunneed_client_init_def nng_try_eq comm_ok_def tbind_def quiet_def)
qed

text \<open>
  If the byte in front of the literal cannot be read, a client that is told any locked path
  faults in its initialisation, after the peer has registered it.
\<close>

lemma client_init_print_faults:
  assumes "comm_ok env" "printf_before_literal env = Fault e" "ps \<noteq> []" "length ps \<le> MAX_LOCKED_FILES"
    and "c_peer env (RegisterClient name) w = (Answered \<lparr>resp_status = 0, resp_body = RespRegisterClient ps\<rparr>, w')"
  shows "sunneed_client_init env name locked_paths_static w = (Fault e, w')"
proof -
  have "exchange env (RegisterClient name) 5 w = (Done (Some \<lparr>resp_status = 0, resp_body = RespRegisterClient ps\<rparr>), w')"
    using assms(1,5) by (simp add: exchange_ok)
  moreover have "store_locked_paths env 0 ps locked_paths_static = Fault e"
    using assms(2-4) by (cases ps) (auto simp: locked_paths_static_def)
  ultimately show ?thesis
    using assms(1) by (simp add: sunneed_client_init_def nng_try_eq comm_ok_def tbind_def quiet_def)
qed

text \<open>
  Under the overlay a program cannot open a file that is not locked: the real file is
  opened, and then the process is ended with the status -1.
\<close>

lemma overlay_open_unlocked_exits:
  assumes "sunneed_client_check_locked_file pathname st < 0"
  shows "overlay_open env pathname flags mode st w = (Exited (-1), w)"
  using assms by (simp add: overlay_open_def sunneed_client_on_locked_path_open_def FATAL_def quiet_def)

lemma overlay_open_unlocked_exits_example:
  "overlay_open (demo_client demo_peer) ''/etc/passwd'' 0 0 (cl_of [''/tmp/camera'']) [] = (Exited (-1), [])"
  by (rule overlay_open_unlocked_exits) (simp add: check_cl_of)

lemma check_index:
  assumes "0 \<le> sunneed_client_check_locked_file p st"
  obtains i q where "sunneed_client_check_locked_file p st = int i" "i < length st"
    "cl_path (st ! i) = Some q" "prefix p q"
proof -
  from assms obtain i where i: "first_index (check_stop p) st = Some i" "cl_path (st ! i) \<noteq> None"
    "sunneed_client_check_locked_file p st = int i"
    by (auto simp: sunneed_client_check_locked_file_def split: option.splits if_splits)
  with first_index_SomeD [OF i(1)] that show ?thesis by (auto simp: check_stop_prefix)
qed

lemma check_neg:
  assumes "\<forall>e \<in> set st. \<forall>q. cl_path e = Some q \<longrightarrow> \<not> prefix p q"
  shows "sunneed_client_check_locked_file p st = -1"
proof (rule ccontr)
  assume "sunneed_client_check_locked_file p st \<noteq> -1"
  then have "0 \<le> sunneed_client_check_locked_file p st"
    by (auto simp: sunneed_client_check_locked_file_def split: option.splits if_splits)
  then obtain i q where "i < length st" "cl_path (st ! i) = Some q" "prefix p q" by (rule check_index)
  with assms show False by (meson nth_mem)
qed

lemma overlay_open_locked:
  assumes "comm_ok env" "length st = MAX_LOCKED_FILES" "sunneed_client_check_locked_file p st = int i"
    and "c_peer env (OpenFile p flags mode) w = (Answered \<lparr>resp_status = 0, resp_body = RespOpenFile d\<rparr>, w')"
    and "sys_open env (Some d) flags mode = fd" "0 < fd"
  shows "overlay_open env p flags mode st w = (Done (fd, st[i := \<lparr>cl_path = Some d, cl_fd = fd\<rparr>]), w')"
proof -
  obtain j where "int i = int j" "j < length st"
    using check_index [of p st] assms(3) by (metis of_nat_0_le_iff)
  moreover have "sunneed_client_fetch_locked_file_path env p flags mode w = (Done (Some d), w')"
  proof -
    have "exchange env (OpenFile p flags mode) 4 w = (Done (Some \<lparr>resp_status = 0, resp_body = RespOpenFile d\<rparr>), w')"
      using assms(1,4) by (simp add: exchange_ok)
    then show ?thesis
      using assms(1) by (simp add: sunneed_client_fetch_locked_file_path_def comm_ok_def tbind_def quiet_def)
  qed
  ultimately show ?thesis
    using assms(2,3,5,6)
    by (simp add: overlay_open_def Let_def sunneed_client_on_locked_path_open_def tbind_def quiet_def)
qed

text \<open>
  C23. Opening a locked file through the overlay. When the daemon answers the dummy \<open>d\<close> to the
  request with the path and the flags of the program, and the dummy can be opened, the program
  gets the descriptor of the dummy, and the descriptor is known as locked afterwards. The entry
  of the locked path is overwritten with the dummy, so when no other entry matches, a second
  open of the same file ends the process without asking the daemon.
\<close>

theorem overlay_open_behaviour:
  assumes "comm_ok env" "length ps \<le> MAX_LOCKED_FILES" "first_index (prefix p) ps = Some i"
    and "c_peer env (OpenFile p flags mode) w = (Answered \<lparr>resp_status = 0, resp_body = RespOpenFile d\<rparr>, w')"
    and "sys_open env (Some d) flags mode = fd" "0 < fd"
    and "\<forall>j < length ps. prefix p (ps ! j) \<longrightarrow> j = i" "\<not> prefix p d"
  shows "\<exists>st. overlay_open env p flags mode (cl_of ps) w = (Done (fd, st), w') \<and>
    sunneed_client_fd_is_locked fd st \<and> overlay_open env p flags' mode' st w'' = (Exited (-1), w'')"
proof -
  let ?st = "(cl_of ps)[i := \<lparr>cl_path = Some d, cl_fd = fd\<rparr>]"
  have i: "i < length ps" using first_index_SomeD [OF assms(3)] by blast
  then have il: "i < length (cl_of ps)" using assms(2) by (simp add: cl_of_length)
  have "overlay_open env p flags mode (cl_of ps) w = (Done (fd, ?st), w')"
    using assms check_cl_of [of p ps] by (intro overlay_open_locked) (simp_all add: cl_of_length)
  moreover have "sunneed_client_fd_is_locked fd ?st"
    using il set_update_memI [OF il, of "\<lparr>cl_path = Some d, cl_fd = fd\<rparr>"]
      first_index_None_iff [of "\<lambda>e. cl_fd e = fd" ?st]
    by (auto simp: sunneed_client_fd_is_locked_def)
  moreover have "\<not> prefix p q" if "j < length ?st" "cl_path (?st ! j) = Some q" for j q
    using that i assms(7,8) by (cases "j = i") (auto simp: cl_of_def nth_append split: if_splits)
  then have "sunneed_client_check_locked_file p ?st = -1"
    by (intro check_neg) (metis in_set_conv_nth)
  ultimately show ?thesis using overlay_open_unlocked_exits [of p ?st env flags' mode' w''] by simp
qed

theorem overlay_open_behaviour_witness:
  "\<exists>st. overlay_open (demo_client demo_peer) ''/tmp/camera'' 1 0 (cl_of [''/tmp/stepper'', ''/tmp/camera'']) [] =
       (Done (3, st), [OpenFile ''/tmp/camera'' 1 0]) \<and>
     sunneed_client_fd_is_locked 3 st \<and> overlay_open (demo_client demo_peer) ''/tmp/camera'' 1 0 st [] = (Exited (-1), [])"
proof (rule overlay_open_behaviour [OF demo_client_ok(1), where i = 1 and d = "''locked_aaaaaa''"])
  show "first_index (prefix ''/tmp/camera'') [''/tmp/stepper'', ''/tmp/camera''] = Some 1" by simp
  show "\<forall>j < length [''/tmp/stepper'', ''/tmp/camera'']. prefix ''/tmp/camera'' ([''/tmp/stepper'', ''/tmp/camera''] ! j) \<longrightarrow> j = 1"
    by (simp add: less_Suc_eq)
qed (simp_all add: demo_peer_def capacities)

lemma overlay_write_locked:
  assumes "comm_ok env" "first_index (\<lambda>e. cl_fd e = fd) st = Some i" "cl_path (st ! i) = Some d"
    and "c_peer env (Write d (strncpy_bytes buf)) w = (Answered \<lparr>resp_status = s, resp_body = RespCallWrite errno n\<rparr>, w')"
  shows "overlay_write env fd buf st w = ((if s = 0 then Done 0 else Exited (-1)), w')"
proof -
  have "exchange env (Write d (strncpy_bytes buf)) 6 w =
      (Done (if s = 0 then Some \<lparr>resp_status = s, resp_body = RespCallWrite errno n\<rparr> else None), w')"
    using assms(1,4) by (simp add: exchange_ok)
  then have "sunneed_client_remote_write env fd buf st w = ((if s = 0 then Done 0 else Exited (-1)), w')"
    using assms(1-3) by (simp add: sunneed_client_remote_write_def comm_ok_def tbind_def quiet_def FATAL_def)
  then show ?thesis
    using assms(2) by (simp add: overlay_write_def sunneed_client_fd_is_locked_def tbind_def quiet_def)
qed

text \<open>
  C24. Writing through the overlay. For a locked descriptor the bytes that reach the daemon
  are those of the buffer exactly when no byte other than zero follows a zero byte in it;
  otherwise everything after the first zero is replaced by zeros. If the daemon reports
  success the program is told that 0 bytes were written, and if it reports a failure the
  process is ended.
\<close>

theorem overlay_write_behaviour:
  assumes "comm_ok env" "first_index (\<lambda>e. cl_fd e = fd) st = Some i" "cl_path (st ! i) = Some d"
    and "c_peer env (Write d sent) w = (Answered \<lparr>resp_status = s, resp_body = RespCallWrite errno n\<rparr>, w')"
    and "sent = strncpy_bytes buf"
  shows "overlay_write env fd buf st w = ((if s = 0 then Done 0 else Exited (-1)), w') \<and>
    (sent = buf \<longleftrightarrow> (\<forall>b \<in> set (dropWhile (\<lambda>b. b \<noteq> 0) buf). b = 0))"
  using overlay_write_locked [OF assms(1-3), of buf w s errno n w'] assms(4,5) strncpy_bytes_id_iff [of buf] by simp

theorem overlay_write_behaviour_witness:
  "overlay_write (demo_client demo_peer) 3 [65, 0, 66] [\<lparr>cl_path = Some ''locked_aaaaaa'', cl_fd = 3\<rparr>] [] =
     (Done 0, [Write ''locked_aaaaaa'' [65, 0, 0]]) \<and>
   strncpy_bytes [65, 0, 66] \<noteq> [65, 0, 66]"
proof -
  have "[65, 0, 0] = strncpy_bytes [65, 0, 66]" by (simp add: strncpy_bytes_def numeral_2_eq_2)
  then show ?thesis
    using overlay_write_behaviour [OF demo_client_ok(1), of 3 "[\<lparr>cl_path = Some ''locked_aaaaaa'', cl_fd = 3\<rparr>]" 0
        "''locked_aaaaaa''" demo_peer "[65, 0, 0]" "[]" 0 0 3 "[Write ''locked_aaaaaa'' [65, 0, 0]]" "[65, 0, 66]"]
    by (simp add: demo_peer_def)
qed

text \<open>
  Unused entries of the table have the descriptor 0, so the standard input counts as locked
  until all 1024 entries are in use, and a write to it goes to the daemon or ends the process.
\<close>

lemma standard_input_locked:
  assumes "length ps < MAX_LOCKED_FILES"
  shows "sunneed_client_fd_is_locked 0 (cl_of ps)"
proof -
  have "\<lparr>cl_path = None, cl_fd = 0\<rparr> \<in> set (cl_of ps)" using assms by (simp add: cl_of_def)
  then show ?thesis
    using first_index_None_iff [of "\<lambda>e. cl_fd e = 0" "cl_of ps"]
    by (auto simp: sunneed_client_fd_is_locked_def)
qed

lemma disconnect_behaviour:
  assumes "comm_ok env" "c_peer env UnregisterClient w = (Answered r, w')"
  shows "on_unload env w = ((if resp_status r = 0 \<and> resp_body r = RespGeneric then Done () else Exited (-1)), w')"
  using assms by (cases "resp_body r")
    (simp_all add: on_unload_def sunneed_client_disconnect_def tbind_def exchange_ok FATAL_def quiet_def)

end
