(* ===== verification/Sunneed_Session.thy ===== *)
theory Sunneed_Session
  imports Sunneed_Core Sunneed_Client
begin

text \<open>
  Client and daemon together: a program under the overlay whose peer is the daemon of
  \<open>Sunneed_Listener\<close>. \<open>daemon_peer\<close> is the reaction of the daemon to a request, and
  \<open>client_at\<close> the environment of a client that is connected to it; the state that the client
  carries through its calls is the state of the daemon, so that the requests that the daemon
  serves are those that the client sends. The lemmas follow one session (load, open, writes,
  unload) and then batches of the example programs.
\<close>

section \<open>A client connected to the daemon\<close>

text \<open>
  What the library delivers to the client: a message without content unpacks to a response
  whose fields have their default values.
\<close>

fun answer_of :: "reply \<Rightarrow> answer" where
  "answer_of NoReply = NoAnswer"
| "answer_of EmptyReply = Answered \<lparr>resp_status = 0, resp_body = RespNotSet\<rparr>"
| "answer_of (Reply r) = Answered r"

text \<open>The daemon as the peer of the client behind \<open>pipe\<close>. A daemon that has ended does not answer.\<close>

definition daemon_peer :: "nng \<Rightarrow> env \<Rightarrow> u32 \<Rightarrow> request \<Rightarrow> server_state \<Rightarrow> answer \<times> server_state" where
  "daemon_peer nng env pipe req st =
     (case serve_message nng env pipe (Some req) st of Done (r, st') \<Rightarrow> (answer_of r, st') | _ \<Rightarrow> (NoAnswer, st))"

definition connected :: "server_state client_env \<Rightarrow> nng \<Rightarrow> env \<Rightarrow> u32 \<Rightarrow> bool" where
  "connected cenv nng env pipe \<longleftrightarrow> comm_ok cenv \<and> c_peer cenv = daemon_peer nng env pipe"

definition calls_ok :: "env \<Rightarrow> bool" where
  "calls_ok env \<longleftrightarrow> rv_msg_alloc env = 0 \<and> rv_msg_append env = 0 \<and> rv_sendmsg env = 0 \<and> links_ok env"

lemma serve_message_reply:
  assumes "calls_ok env" "handle_request nng env pipe (Some req) st = Done (Some r, st')"
  shows "serve_message nng env pipe (Some req) st = Done (Reply r, st')"
    "daemon_peer nng env pipe req st = (Answered r, st')"
  using assms by (simp_all add: serve_message_def send_response_def calls_ok_def daemon_peer_def)

lemma locked_path_concat:
  "locked_path dst p \<longleftrightarrow> (\<exists>q \<in> set (concat (map locked_by (devices dst))). prefix p q)"
  by (auto simp: locked_path_def)

lemma load_against_daemon:
  assumes "server_ok nng st" "live_pipe nng pipe" "peer_pid env = Some pid_int" "calls_ok env"
    and "connected cenv nng env pipe" "print_ok cenv" "sv_locked st = lp_of ps" "length ps < MAX_LOCKED_FILES"
    and "card (snd ` sessions (sv_proc st)) < MAX_TENANTS"
  obtains st' where "on_load cenv locked_paths_static st = (Done (cl_of ps), st')"
    "handle_request nng env pipe (Some (RegisterClient ''TODO'')) st =
      Done (Some \<lparr>resp_status = 0, resp_body = RespRegisterClient ps\<rparr>, st')"
proof -
  obtain st' where st': "handle_request nng env pipe (Some (RegisterClient ''TODO'')) st =
      Done (Some \<lparr>resp_status = 0, resp_body = RespRegisterClient ps\<rparr>, st')"
    using handle_register [OF assms(1,2,3,7,8), of "''TODO''"] assms(9) by auto
  then have "c_peer cenv (RegisterClient ''TODO'') st =
      (Answered \<lparr>resp_status = 0, resp_body = RespRegisterClient ps\<rparr>, st')"
    using assms(4,5) by (simp add: connected_def serve_message_reply(2))
  then have "sunneed_client_init cenv ''TODO'' locked_paths_static st = (Done (0, cl_of ps), st')"
    using assms(5,6,8) by (intro client_init_eq) (auto simp: connected_def)
  then have "on_load cenv locked_paths_static st = (Done (cl_of ps), st')"
    by (simp add: on_load_def tbind_def quiet_def)
  with st' that show ?thesis by blast
qed

definition client_of :: "nng \<Rightarrow> env \<Rightarrow> u32 \<Rightarrow> server_state client_env" where
  "client_of nng env pipe = demo_client (daemon_peer nng env pipe)"

lemma client_of_connected: "connected (client_of nng env pipe) nng env pipe" "print_ok (client_of nng env pipe)"
  using demo_client_ok by (simp_all add: connected_def client_of_def)

lemma demo_calls_ok: "calls_ok demo_env"
  using demo_links_ok by (simp add: calls_ok_def) (simp add: demo_env_def)

lemma demo_device_paths: "locked_by demo_device = [''/tmp/camera'']"
  by (simp add: locked_by_def demo_device_def DEVICE_TYPE_FILE_LOCK_def)

text \<open>The side of the daemon: an open and a write of one client.\<close>

lemma serve_open_then_write:
  assumes "server_ok nng st" "tenant_of_pipe nng (int_of_u32 pipe) (sv_proc st) = Some t"
    and "calls_ok env" "calls_ok env'" "open_table st es" "length es < MAX_LOCKED_FILES"
    and "locked_path (sv_dev st) p" "os_open env p flags mode = fd" "fd \<noteq> -1"
    and "sunneed_device_get_dummy_file p (os_mkstemp env) (sv_dev st) = (Some d, dst)"
    and "\<forall>e \<in> set es. \<not> prefix d (fst e)" "0 \<le> fst (os_write env' fd buf)"
  obtains st1 st2 n where
    "serve_message nng env pipe (Some (OpenFile p flags mode)) st =
      Done (Reply \<lparr>resp_status = 0, resp_body = RespOpenFile d\<rparr>, st1)"
    "daemon_peer nng env pipe (OpenFile p flags mode) st = (Answered \<lparr>resp_status = 0, resp_body = RespOpenFile d\<rparr>, st1)"
    "serve_message nng env' pipe (Some (Write d buf)) st1 =
      Done (Reply \<lparr>resp_status = 0, resp_body = RespCallWrite 0 n\<rparr>, st2)"
    "daemon_peer nng env' pipe (Write d buf) st1 = (Answered \<lparr>resp_status = 0, resp_body = RespCallWrite 0 n\<rparr>, st2)"
    "sv_calls st2 = sv_calls st @ [SysOpen p flags mode fd, SysWrite fd buf]"
    "sv_proc st2 = sv_proc st" "server_ok nng st2"
proof -
  let ?es = "es @ [(d, fd)]"
  let ?st1 = "(log_call (SysOpen p flags mode fd) st)\<lparr>sv_dev := dst, dummy_path_fd_map := fdm_of ?es\<rparr>"
  let ?st2 = "log_call (SysWrite fd buf) ?st1"
  note rep = serve_message_reply [OF assms(3) handle_open [OF assms(1,2,5,7,8,9,6,10)]]
  have tab: "open_table ?st1 ?es" using assms(6) by (simp add: open_table_def)
  have t1: "tenant_of_pipe nng (int_of_u32 pipe) (sv_proc ?st1) = Some t" using assms(2) by simp
  have links: "links_ok env'" using assms(4) by (simp add: calls_ok_def)
  have w0: "\<not> fst (os_write env' fd buf) < 0" using assms(12) by simp
  note wrep = serve_message_reply [OF assms(4) handle_write [OF t1 tab links, of d buf,
        unfolded lookup_fd_new [OF assms(11)] Let_def], unfolded if_not_P [OF w0]]
  have "length (fdm_of ?es) = MAX_LOCKED_FILES" using assms(6) by (simp add: fdm_of_def)
  moreover have "devices dst = devices (sv_dev st)"
    using get_dummy_devices [of p "os_mkstemp env" "sv_dev st"] assms(10) by simp
  ultimately have "server_ok nng ?st2" using assms(1) by (simp add: server_ok_def)
  with that [OF rep wrep] show ?thesis by simp
qed

text \<open>The side of the client, with the table it has after its initialisation.\<close>

lemma overlay_open_cl_of:
  assumes "comm_ok cenv" "first_index (prefix p) ps = Some i" "length ps \<le> MAX_LOCKED_FILES"
    and "c_peer cenv (OpenFile p flags mode) w = (Answered \<lparr>resp_status = 0, resp_body = RespOpenFile d\<rparr>, w')"
    and "sys_open cenv (Some d) flags mode = cfd" "0 < cfd"
  shows "overlay_open cenv p flags mode (cl_of ps) w =
    (Done (cfd, (cl_of ps)[i := \<lparr>cl_path = Some d, cl_fd = cfd\<rparr>]), w')"
  using assms check_cl_of [of p ps] by (intro overlay_open_locked) (simp_all add: cl_of_length)

text \<open>The bytes that \<open>strncpy\<close> leaves alone.\<close>

definition zero_safe :: "byte list \<Rightarrow> bool" where
  "zero_safe buf \<longleftrightarrow> (\<forall>b \<in> set (dropWhile (\<lambda>b. b \<noteq> 0) buf). b = 0)"

lemma overlay_write_cl_of:
  assumes "comm_ok cenv" "i < length ps" "length ps \<le> MAX_LOCKED_FILES" "0 < cfd" "zero_safe buf"
    and "c_peer cenv (Write d buf) w = (Answered \<lparr>resp_status = 0, resp_body = RespCallWrite e n\<rparr>, w')"
  shows "overlay_write cenv cfd buf ((cl_of ps)[i := \<lparr>cl_path = Some d, cl_fd = cfd\<rparr>]) w = (Done 0, w')"
proof -
  have il: "i < length (cl_of ps)" using assms(2,3) by (simp add: cl_of_length)
  have "first_index (\<lambda>e. cl_fd e = cfd) ((cl_of ps)[i := \<lparr>cl_path = Some d, cl_fd = cfd\<rparr>]) = Some i"
    using il assms(2,4) by (intro first_index_SomeI) (auto simp: cl_of_def nth_append nth_list_update)
  moreover have "strncpy_bytes buf = buf" using assms(5) strncpy_bytes_id_iff zero_safe_def by blast
  ultimately show ?thesis
    using overlay_write_locked [OF assms(1), of cfd _ i d buf w 0 e n w'] assms(6) il by simp
qed

text \<open>A pipe that was not registered before is mapped to its own new tenant.\<close>

lemma tenant_of_new_pipe:
  assumes "nng_ok nng" "live_pipe nng pipe" "server_ok nng st" "pipe \<notin> fst ` S"
    and "sessions (sv_proc st) = insert (pipe, t) S"
  shows "tenant_of_pipe nng (int_of_u32 pipe) (sv_proc st) = Some t"
proof -
  note K = server_okD(1,2) [OF assms(3)]
  have "tenant_of_pipe nng (int_of_u32 pipe) (sv_proc st) \<noteq> None"
    using tenant_of_pipe_sessions [OF assms(1,2) K] assms(5) by simp
  then obtain u where u: "tenant_of_pipe nng (int_of_u32 pipe) (sv_proc st) = Some u" by blast
  then have "(pipe, u) \<in> sessions (sv_proc st)"
    using tenant_of_pipe_SomeD [OF assms(1,2) K(1) u] unfolding mem_sessions by metis
  then have "u = t" using assms(4,5) by force
  with u show ?thesis by simp
qed

lemma register_session:
  assumes "nng_ok nng" "live_pipe nng pipe" "server_ok nng st" "peer_pid env = Some pid_int"
    and "sv_locked st = lp_of ps" "length ps < MAX_LOCKED_FILES"
    and "card (snd ` sessions (sv_proc st)) < MAX_TENANTS" "pipe \<notin> fst ` sessions (sv_proc st)"
  obtains t st1 where "handle_request nng env pipe (Some (RegisterClient name)) st =
      Done (Some \<lparr>resp_status = 0, resp_body = RespRegisterClient ps\<rparr>, st1)"
    "server_ok nng st1" "tenant_of_pipe nng (int_of_u32 pipe) (sv_proc st1) = Some t"
    "sessions (sv_proc st1) = insert (pipe, t) (sessions (sv_proc st))"
    "sv_dev st1 = sv_dev st" "dummy_path_fd_map st1 = dummy_path_fd_map st" "sv_calls st1 = sv_calls st"
    "sv_locked st1 = sv_locked st"
proof -
  obtain t st1 where one: "handle_request nng env pipe (Some (RegisterClient name)) st =
      Done (Some \<lparr>resp_status = 0, resp_body = RespRegisterClient ps\<rparr>, st1)"
    "sessions (sv_proc st1) = insert (pipe, t) (sessions (sv_proc st))"
    using handle_register [OF assms(3,2,4,5,6), of name] assms(7) by auto
  have ok: "server_ok nng st1" using handle_request_refines [OF assms(1,2,3) one(1)] by simp
  have "sv_dev st1 = sv_dev st \<and> dummy_path_fd_map st1 = dummy_path_fd_map st \<and> sv_calls st1 = sv_calls st \<and>
      sv_locked st1 = sv_locked st"
    using one(1) by (auto simp: handle_request_def serve_register_client_def split: option.splits)
  with one ok tenant_of_new_pipe [OF assms(1,2) ok assms(8) one(2)] that show ?thesis by blast
qed

lemma unregister_session:
  assumes "nng_ok nng" "live_pipe nng pipe" "server_ok nng st"
    and "tenant_of_pipe nng (int_of_u32 pipe) (sv_proc st) = Some t"
  obtains st' where "handle_request nng env pipe (Some UnregisterClient) st =
      Done (Some \<lparr>resp_status = 0, resp_body = RespGeneric\<rparr>, st')"
    "sessions (sv_proc st') = sessions (sv_proc st) - {(pipe, t)}" "sv_calls st' = sv_calls st"
    "sv_dev st' = sv_dev st" "dummy_path_fd_map st' = dummy_path_fd_map st" "sv_locked st' = sv_locked st"
proof -
  note K = server_okD(1) [OF assms(3)]
  obtain i where i: "serve_unregister_client nng pipe t st =
      Done (0, RespGeneric, st\<lparr>sv_proc := release (pipe_initializer nng) i t (sv_proc st)\<rparr>)"
    "i < SUNNEED_MAX_IPC_CLIENTS" "tp_pipe (tenant_pipes (sv_proc st) ! i) = pipe"
    "tp_tenant (tenant_pipes (sv_proc st) ! i) = Some t"
    using serve_unregister_eq [OF assms(1,2) K assms(4)] by metis
  show ?thesis
    using i assms(4) sessions_release [OF K i(2,4)]
    by (intro that [of "st\<lparr>sv_proc := release (pipe_initializer nng) i t (sv_proc st)\<rparr>"])
      (simp_all add: handle_request_def)
qed

section \<open>Whole sessions\<close>

text \<open>
  A client process and its connection: the library and the answers of the system to the
  daemon, the pipe, and the environment of the client but for its peer, which is the daemon.
\<close>

record link =
  lk_nng :: nng
  lk_env :: env
  lk_pipe :: u32
  lk_client :: "server_state client_env"

definition client_at :: "link \<Rightarrow> server_state client_env" where
  "client_at L = (lk_client L)\<lparr>c_peer := daemon_peer (lk_nng L) (lk_env L) (lk_pipe L)\<rparr>"

text \<open>What a session needs of its surroundings and of the state \<open>st\<close> in which it starts.\<close>

definition link_ok :: "link \<Rightarrow> bool" where
  "link_ok L \<longleftrightarrow> nng_ok (lk_nng L) \<and> live_pipe (lk_nng L) (lk_pipe L) \<and> calls_ok (lk_env L) \<and>
     peer_pid (lk_env L) \<noteq> None \<and> comm_ok (lk_client L) \<and> print_ok (lk_client L)"

definition session_ready ::
    "link \<Rightarrow> cstr \<Rightarrow> int \<Rightarrow> int \<Rightarrow> byte list list \<Rightarrow> cstr \<Rightarrow> int \<Rightarrow> (cstr \<times> int) list \<Rightarrow> server_state \<Rightarrow> bool" where
  "session_ready L p flags mode bufs d fd es st \<longleftrightarrow>
     server_ok (lk_nng L) st \<and> card (snd ` sessions (sv_proc st)) < MAX_TENANTS \<and>
     lk_pipe L \<notin> fst ` sessions (sv_proc st) \<and>
     sv_locked st = lp_of (concat (map locked_by (devices (sv_dev st)))) \<and>
     length (concat (map locked_by (devices (sv_dev st)))) < MAX_LOCKED_FILES \<and> locked_path (sv_dev st) p \<and>
     open_table st es \<and> length es < MAX_LOCKED_FILES \<and> (\<forall>e \<in> set es. \<not> prefix d (fst e)) \<and>
     os_open (lk_env L) p flags mode = fd \<and> fd \<noteq> -1 \<and> (\<forall>b \<in> set bufs. 0 \<le> fst (os_write (lk_env L) fd b)) \<and>
     fst (sunneed_device_get_dummy_file p (os_mkstemp (lk_env L)) (sv_dev st)) = Some d \<and>
     0 < sys_open (lk_client L) (Some d) flags mode"

lemma client_at_simps [simp]:
  "comm_ok (client_at L) = comm_ok (lk_client L)" "print_ok (client_at L) = print_ok (lk_client L)"
  "sys_open (client_at L) = sys_open (lk_client L)"
  "c_peer (client_at L) = daemon_peer (lk_nng L) (lk_env L) (lk_pipe L)"
  "comm_ok (lk_client L) \<Longrightarrow> connected (client_at L) (lk_nng L) (lk_env L) (lk_pipe L)"
  by (simp_all add: client_at_def comm_ok_def print_ok_def printf_before_literal_def connected_def)

text \<open>The daemon after a sequence of writes to one descriptor.\<close>

definition logged_writes :: "int \<Rightarrow> byte list list \<Rightarrow> server_state \<Rightarrow> server_state" where
  "logged_writes fd bufs st = fold (\<lambda>b. log_call (SysWrite fd b)) bufs st"

lemma logged_writes_simps [simp]:
  "sv_calls (logged_writes fd bufs st) = sv_calls st @ map (SysWrite fd) bufs"
  "sv_proc (logged_writes fd bufs st) = sv_proc st"
  "sv_dev (logged_writes fd bufs st) = sv_dev st"
  "sv_locked (logged_writes fd bufs st) = sv_locked st"
  "dummy_path_fd_map (logged_writes fd bufs st) = dummy_path_fd_map st"
  unfolding logged_writes_def by (induction bufs arbitrary: st) (simp_all add: log_call_def)

lemma served_write:
  assumes "calls_ok env" "tenant_of_pipe nng (int_of_u32 pipe) (sv_proc st) = Some t"
    and "open_table st es" "lookup_fd es d = fd" "0 \<le> fst (os_write env fd b)"
  shows "\<exists>n. daemon_peer nng env pipe (Write d b) st =
      (Answered \<lparr>resp_status = 0, resp_body = RespCallWrite 0 n\<rparr>, log_call (SysWrite fd b) st)"
proof -
  have w0: "\<not> fst (os_write env fd b) < 0" using assms(5) by simp
  have links: "links_ok env" using assms(1) by (simp add: calls_ok_def)
  from serve_message_reply(2) [OF assms(1) handle_write [OF assms(2,3) links, of d b,
        unfolded assms(4) Let_def, unfolded if_not_P [OF w0]]] show ?thesis by blast
qed

text \<open>A sequence of writes of the client, and the calls that the daemon makes for it.\<close>

lemma session_writes:
  assumes "calls_ok (lk_env L)" "comm_ok (lk_client L)" "i < length ps" "length ps \<le> MAX_LOCKED_FILES" "0 < cfd"
    and "lookup_fd es d = fd" "\<forall>b \<in> set bufs. zero_safe b \<and> 0 \<le> fst (os_write (lk_env L) fd b)"
    and "tenant_of_pipe (lk_nng L) (int_of_u32 (lk_pipe L)) (sv_proc st) = Some t" "open_table st es"
  shows "write_all (client_at L) bufs cfd ((cl_of ps)[i := \<lparr>cl_path = Some d, cl_fd = cfd\<rparr>]) st =
    (Done (), logged_writes fd bufs st)"
  using assms(7-9)
proof (induction bufs arbitrary: st)
  case Nil
  then show ?case by (simp add: quiet_def logged_writes_def)
next
  case (Cons b bufs)
  obtain n where "daemon_peer (lk_nng L) (lk_env L) (lk_pipe L) (Write d b) st =
      (Answered \<lparr>resp_status = 0, resp_body = RespCallWrite 0 n\<rparr>, log_call (SysWrite fd b) st)"
    using served_write [OF assms(1) Cons.prems(2,3) assms(6), of b] Cons.prems(1) by auto
  then have "overlay_write (client_at L) cfd b ((cl_of ps)[i := \<lparr>cl_path = Some d, cl_fd = cfd\<rparr>]) st =
      (Done 0, log_call (SysWrite fd b) st)"
    using Cons.prems(1) assms(2) by (intro overlay_write_cl_of [OF _ assms(3-5)]) simp_all
  moreover have "open_table (log_call (SysWrite fd b) st) es" using Cons.prems(3) by (simp add: open_table_def)
  ultimately show ?case
    using Cons.IH [of "log_call (SysWrite fd b) st"] Cons.prems(1,2) by (simp add: tbind_run logged_writes_def)
qed

text \<open>The load of the program and its open.\<close>

lemma session_opened:
  assumes "link_ok L" "session_ready L p flags mode bufs d fd es st"
    and "ps = concat (map locked_by (devices (sv_dev st)))" "first_index (prefix p) ps = Some i"
    and "cfd = sys_open (lk_client L) (Some d) flags mode"
  obtains t st1 st2 where
    "on_load (client_at L) locked_paths_static st = (Done (cl_of ps), st1)"
    "overlay_open (client_at L) p flags mode (cl_of ps) st1 =
      (Done (cfd, (cl_of ps)[i := \<lparr>cl_path = Some d, cl_fd = cfd\<rparr>]), st2)"
    "server_ok (lk_nng L) st2" "open_table st2 (es @ [(d, fd)])"
    "tenant_of_pipe (lk_nng L) (int_of_u32 (lk_pipe L)) (sv_proc st2) = Some t"
    "sessions (sv_proc st2) = insert (lk_pipe L, t) (sessions (sv_proc st))"
    "sv_calls st2 = sv_calls st @ [SysOpen p flags mode fd]" "sv_locked st2 = sv_locked st"
    "sv_dev st2 = snd (sunneed_device_get_dummy_file p (os_mkstemp (lk_env L)) (sv_dev st))"
proof -
  note A = assms(1) [unfolded link_ok_def] and R = assms(2) [unfolded session_ready_def, folded assms(3)]
  obtain pid_int where pid: "peer_pid (lk_env L) = Some pid_int" using A by blast
  obtain t st1 where one: "handle_request (lk_nng L) (lk_env L) (lk_pipe L) (Some (RegisterClient ''TODO'')) st =
      Done (Some \<lparr>resp_status = 0, resp_body = RespRegisterClient ps\<rparr>, st1)"
    "server_ok (lk_nng L) st1" "tenant_of_pipe (lk_nng L) (int_of_u32 (lk_pipe L)) (sv_proc st1) = Some t"
    "sessions (sv_proc st1) = insert (lk_pipe L, t) (sessions (sv_proc st))"
    "sv_dev st1 = sv_dev st" "dummy_path_fd_map st1 = dummy_path_fd_map st" "sv_calls st1 = sv_calls st"
    "sv_locked st1 = sv_locked st"
    using A R pid register_session by metis
  have load: "on_load (client_at L) locked_paths_static st = (Done (cl_of ps), st1)"
    by (rule load_against_daemon [of "lk_nng L" st "lk_pipe L" "lk_env L" pid_int "client_at L" ps])
      (use A R pid one(1) in auto)
  obtain dst where dst: "sunneed_device_get_dummy_file p (os_mkstemp (lk_env L)) (sv_dev st1) = (Some d, dst)"
    using R one(5) by (metis prod.collapse)
  let ?st2 = "(log_call (SysOpen p flags mode fd) st1)\<lparr>sv_dev := dst, dummy_path_fd_map := fdm_of (es @ [(d, fd)])\<rparr>"
  have tab: "open_table st1 es" using R one(6) by (simp add: open_table_def)
  have "locked_path (sv_dev st1) p" using R one(5) by simp
  then have op: "handle_request (lk_nng L) (lk_env L) (lk_pipe L) (Some (OpenFile p flags mode)) st1 =
      Done (Some \<lparr>resp_status = 0, resp_body = RespOpenFile d\<rparr>, ?st2)"
    using handle_open [OF one(2,3) tab _ _ _ _ dst] R by blast
  note peer = serve_message_reply(2) [OF _ op]
  have "overlay_open (client_at L) p flags mode (cl_of ps) st1 =
      (Done (cfd, (cl_of ps)[i := \<lparr>cl_path = Some d, cl_fd = cfd\<rparr>]), ?st2)"
    using A R peer assms(5) by (intro overlay_open_cl_of [OF _ assms(4)]) simp_all
  moreover have "server_ok (lk_nng L) ?st2" using handle_request_refines [OF _ _ one(2) op] A by blast
  moreover have "open_table ?st2 (es @ [(d, fd)])" using R by (simp add: open_table_def)
  ultimately show ?thesis using that load one dst by simp
qed

text \<open>The exit of the program.\<close>

lemma session_unload:
  assumes "link_ok L" "server_ok (lk_nng L) st"
    and "tenant_of_pipe (lk_nng L) (int_of_u32 (lk_pipe L)) (sv_proc st) = Some t"
  obtains st' where "on_unload (client_at L) st = (Done (), st')" "server_ok (lk_nng L) st'"
    "sessions (sv_proc st') = sessions (sv_proc st) - {(lk_pipe L, t)}" "sv_calls st' = sv_calls st"
    "sv_dev st' = sv_dev st" "dummy_path_fd_map st' = dummy_path_fd_map st" "sv_locked st' = sv_locked st"
proof -
  note A = assms(1) [unfolded link_ok_def]
  obtain st' where un: "handle_request (lk_nng L) (lk_env L) (lk_pipe L) (Some UnregisterClient) st =
      Done (Some \<lparr>resp_status = 0, resp_body = RespGeneric\<rparr>, st')"
    "sessions (sv_proc st') = sessions (sv_proc st) - {(lk_pipe L, t)}" "sv_calls st' = sv_calls st"
    "sv_dev st' = sv_dev st" "dummy_path_fd_map st' = dummy_path_fd_map st" "sv_locked st' = sv_locked st"
    using A unregister_session [OF _ _ assms(2,3)] by metis
  have "daemon_peer (lk_nng L) (lk_env L) (lk_pipe L) UnregisterClient st =
      (Answered \<lparr>resp_status = 0, resp_body = RespGeneric\<rparr>, st')"
    using A serve_message_reply(2) [OF _ un(1)] by blast
  then have "on_unload (client_at L) st = (Done (), st')"
    using disconnect_behaviour [of "client_at L" st] A by simp
  moreover have "server_ok (lk_nng L) st'" using handle_request_refines [OF _ _ assms(2) un(1)] A by blast
  ultimately show ?thesis using that un(2-) by blast
qed

text \<open>A whole session of a program that opens one file: it ends with the status 0.\<close>

lemma session_run:
  assumes "link_ok L" "session_ready L p flags mode bufs d fd es st" "\<forall>b \<in> set bufs. zero_safe b"
  obtains st' where
    "run_preloaded (client_at L) (one_file_program p flags mode failed bufs (client_at L)) st = (Done 0, st')"
    "sv_calls st' = sv_calls st @ SysOpen p flags mode fd # map (SysWrite fd) bufs"
    "sessions (sv_proc st') = sessions (sv_proc st)" "server_ok (lk_nng L) st'" "open_table st' (es @ [(d, fd)])"
    "sv_locked st' = sv_locked st"
    "sv_dev st' = snd (sunneed_device_get_dummy_file p (os_mkstemp (lk_env L)) (sv_dev st))"
proof -
  note A = assms(1) [unfolded link_ok_def] and R = assms(2) [unfolded session_ready_def]
  let ?ps = "concat (map locked_by (devices (sv_dev st)))" and ?cfd = "sys_open (lk_client L) (Some d) flags mode"
  obtain i where i: "first_index (prefix p) ?ps = Some i"
    using R first_index_None_iff [of "prefix p" ?ps] unfolding locked_path_concat by blast
  obtain t st1 st2 where O: "on_load (client_at L) locked_paths_static st = (Done (cl_of ?ps), st1)"
    "overlay_open (client_at L) p flags mode (cl_of ?ps) st1 =
      (Done (?cfd, (cl_of ?ps)[i := \<lparr>cl_path = Some d, cl_fd = ?cfd\<rparr>]), st2)"
    "server_ok (lk_nng L) st2" "open_table st2 (es @ [(d, fd)])"
    "tenant_of_pipe (lk_nng L) (int_of_u32 (lk_pipe L)) (sv_proc st2) = Some t"
    "sessions (sv_proc st2) = insert (lk_pipe L, t) (sessions (sv_proc st))"
    "sv_calls st2 = sv_calls st @ [SysOpen p flags mode fd]" "sv_locked st2 = sv_locked st"
    "sv_dev st2 = snd (sunneed_device_get_dummy_file p (os_mkstemp (lk_env L)) (sv_dev st))"
    by (rule session_opened [OF assms(1,2) refl i refl])
  let ?st3 = "logged_writes fd bufs st2"
  have W: "write_all (client_at L) bufs ?cfd ((cl_of ?ps)[i := \<lparr>cl_path = Some d, cl_fd = ?cfd\<rparr>]) st2 = (Done (), ?st3)"
    using A R assms(3) first_index_SomeD [OF i] lookup_fd_new [of es d fd]
    by (intro session_writes [OF _ _ _ _ _ _ _ O(5,4)]) simp_all
  have ok3: "server_ok (lk_nng L) ?st3" using O(3) by (simp add: server_ok_def)
  have t3: "tenant_of_pipe (lk_nng L) (int_of_u32 (lk_pipe L)) (sv_proc ?st3) = Some t" using O(5) by simp
  obtain st4 where U: "on_unload (client_at L) ?st3 = (Done (), st4)" "server_ok (lk_nng L) st4"
    "sessions (sv_proc st4) = sessions (sv_proc ?st3) - {(lk_pipe L, t)}" "sv_calls st4 = sv_calls ?st3"
    "sv_dev st4 = sv_dev ?st3" "dummy_path_fd_map st4 = dummy_path_fd_map ?st3" "sv_locked st4 = sv_locked ?st3"
    by (rule session_unload [OF assms(1) ok3 t3])
  have "one_file_program p flags mode failed bufs (client_at L) (cl_of ?ps) st1 = (Done 0, ?st3)"
    using R O(2) W by (simp add: one_file_program_def tbind_def quiet_def)
  then have "run_preloaded (client_at L) (one_file_program p flags mode failed bufs (client_at L)) st = (Done 0, st4)"
    using O(1) U(1) by (simp add: run_preloaded_def tbind_def quiet_def)
  moreover have "(lk_pipe L, t) \<notin> sessions (sv_proc st)" using R by force
  ultimately show ?thesis using that U O(4,6-) by (simp add: open_table_def)
qed

section \<open>The example programs\<close>

text \<open>
  The programs of the repository that run under the overlay, with the argument \<open>mode\<close> that
  three of them do not pass to \<open>open\<close>.
\<close>

datatype example = Overlay_tester | Stepper_test int | Stepper_tester int | Cam_test int

primrec run_example :: "example \<Rightarrow> 'p client_env \<Rightarrow> client_state \<Rightarrow> ('p, int) talk" where
  "run_example Overlay_tester = overlay_tester"
| "run_example (Stepper_test mode) = stepper_test mode"
| "run_example (Stepper_tester mode) = stepper_tester mode"
| "run_example (Cam_test mode) = cam_test mode"

text \<open>
  A run of an example by a client whose peer is the daemon, which is in the state \<open>st\<close> when the
  program is started: what the program returns, and the state that its requests have left the
  daemon in. A batch runs one program after the other.
\<close>

definition run_session :: "link \<Rightarrow> example \<Rightarrow> server_state \<Rightarrow> int outcome \<times> server_state" where
  "run_session L x st = run_preloaded (client_at L) (run_example x (client_at L)) st"

primrec run_batch :: "(link \<times> example) list \<Rightarrow> server_state \<Rightarrow> int outcome list \<times> server_state" where
  "run_batch [] st = ([], st)"
| "run_batch (j # js) st =
     (case run_session (fst j) (snd j) st of (r, st') \<Rightarrow>
        (case run_batch js st' of (rs, st'') \<Rightarrow> (r # rs, st'')))"

text \<open>
  What the programs are expected to do, as their sources read: the file, the arguments of
  \<open>open\<close>, and the buffers in their order.
\<close>

primrec ex_path :: "example \<Rightarrow> cstr" where
  "ex_path Overlay_tester = ''/tmp/test''"
| "ex_path (Stepper_test mode) = ''/dev/stepper''"
| "ex_path (Stepper_tester mode) = ''/tmp/stepper''"
| "ex_path (Cam_test mode) = ''/tmp/camera''"

primrec ex_open :: "example \<Rightarrow> int \<times> int" where
  "ex_open Overlay_tester = (O_CREAT_RDWR, 438)"
| "ex_open (Stepper_test mode) = (O_WRONLY, mode)"
| "ex_open (Stepper_tester mode) = (O_WRONLY, mode)"
| "ex_open (Cam_test mode) = (O_WRONLY, mode)"

primrec ex_bufs :: "example \<Rightarrow> byte list list" where
  "ex_bufs Overlay_tester = [[102, 111, 111]]"
| "ex_bufs (Stepper_test mode) = [int_bytes 90]"
| "ex_bufs (Stepper_tester mode) = [int_bytes 200, int_bytes 300, int_bytes 90]"
| "ex_bufs (Cam_test mode) =
     [ascii_bytes (''start_preview()'' @ [CHR 0x0A]),
      ascii_bytes (''capture('' @ [CHR 0x27] @ ''img.jpg'' @ [CHR 0x27] @ '')'' @ [CHR 0x0A]),
      ascii_bytes (''stop_preview()'' @ [CHR 0x0A])]"

lemma int_bytes_list: "int_bytes n = [of_int n, of_int (n div 256), of_int (n div 65536), of_int (n div 16777216)]"
  by (simp add: int_bytes_def upt_conv_Cons)

lemma ex_bufs_zero_safe: "b \<in> set (ex_bufs x) \<Longrightarrow> zero_safe b"
  by (cases x) (auto simp: zero_safe_def int_bytes_list ascii_bytes_def)

lemma ex_path_build: "ex_path x \<in> set build_paths"
  by (cases x) (simp_all add: build_paths_def)

definition ex_failed :: "example \<Rightarrow> int outcome" where
  "ex_failed x = (case x of Cam_test mode \<Rightarrow> Exited 1 | _ \<Rightarrow> Done (-1))"

text \<open>Every example opens its file and writes its buffers.\<close>

lemma run_example_form:
  "run_example x = one_file_program (ex_path x) (fst (ex_open x)) (snd (ex_open x)) (ex_failed x) (ex_bufs x)"
  by (cases x) (simp_all add: example_programs ex_failed_def)

text \<open>A session of an example from a state that is ready for it.\<close>

lemma example_session:
  assumes "link_ok L" "ex_open x = (flags, mode)"
    and "session_ready L (ex_path x) flags mode (ex_bufs x) d fd es st"
  obtains st' where "run_session L x st = (Done 0, st')"
    "sv_calls st' = sv_calls st @ SysOpen (ex_path x) flags mode fd # map (SysWrite fd) (ex_bufs x)"
    "sessions (sv_proc st') = sessions (sv_proc st)" "server_ok (lk_nng L) st'"
    "open_table st' (es @ [(d, fd)])" "sv_locked st' = sv_locked st"
    "sv_dev st' = snd (sunneed_device_get_dummy_file (ex_path x) (os_mkstemp (lk_env L)) (sv_dev st))"
proof -
  have safe: "\<forall>b \<in> set (ex_bufs x). zero_safe b" using ex_bufs_zero_safe by blast
  show ?thesis
    by (rule session_run [OF assms(1,3) safe, where failed = "ex_failed x"])
      (rule that, simp_all add: run_session_def run_example_form assms(2))
qed

section \<open>A batch of examples\<close>

text \<open>
  What a job needs of the system around it: \<open>mkstemp\<close> makes a file (its names have 13
  characters, and the descriptor is not 0), the files can be opened and written.
\<close>

definition mk_name :: "link \<times> example \<Rightarrow> cstr" where
  "mk_name j = (case os_mkstemp (lk_env (fst j)) of Some (k, name) \<Rightarrow> name | None \<Rightarrow> [])"

definition job_fd :: "link \<times> example \<Rightarrow> int" where
  "job_fd j = (case ex_open (snd j) of (flags, mode) \<Rightarrow> os_open (lk_env (fst j)) (ex_path (snd j)) flags mode)"

definition job_ok :: "nng \<Rightarrow> link \<times> example \<Rightarrow> bool" where
  "job_ok nng j \<longleftrightarrow>
     link_ok (fst j) \<and> lk_nng (fst j) = nng \<and>
     (\<exists>k. k \<noteq> 0 \<and> os_mkstemp (lk_env (fst j)) = Some (k, mk_name j)) \<and> length (mk_name j) = 13 \<and>
     job_fd j \<noteq> -1 \<and> (\<forall>b \<in> set (ex_bufs (snd j)). 0 \<le> fst (os_write (lk_env (fst j)) (job_fd j) b)) \<and>
     0 < sys_open (lk_client (fst j)) (Some (mk_name j)) (fst (ex_open (snd j))) (snd (ex_open (snd j)))"

text \<open>The calls of a program on its file.\<close>

definition job_calls :: "link \<times> example \<Rightarrow> syscall list" where
  "job_calls j = SysOpen (ex_path (snd j)) (fst (ex_open (snd j))) (snd (ex_open (snd j))) (job_fd j) #
     map (SysWrite (job_fd j)) (ex_bufs (snd j))"

text \<open>
  The daemon between two jobs: nobody is registered, the files in \<open>es\<close> have been opened, and
  the paths \<open>ps\<close> have no dummy yet.
\<close>

definition idle :: "nng \<Rightarrow> cstr list \<Rightarrow> (cstr \<times> int) list \<Rightarrow> server_state \<Rightarrow> bool" where
  "idle nng ps es st \<longleftrightarrow>
     server_ok nng st \<and> sessions (sv_proc st) = {} \<and> sv_locked st = lp_of build_paths \<and>
     concat (map locked_by (devices (sv_dev st))) = build_paths \<and> open_table st es \<and>
     (\<forall>e \<in> set es. length (fst e) = 13) \<and> length (dummy_map (sv_dev st)) = MAX_LOCKED_FILES \<and>
     used_count (\<lambda>e. \<not> d_init e) (dummy_map (sv_dev st)) = length es \<and>
     (\<forall>p \<in> set ps. dummy_lookup (sv_dev st) p = None) \<and> length es + length ps \<le> MAX_LOCKED_FILES"

text \<open>A new path gets the new file as its dummy when a slot is free.\<close>

lemma get_dummy_fresh:
  assumes "dummy_lookup st p = None" "used_count (\<lambda>e. \<not> d_init e) (dummy_map st) < length (dummy_map st)"
    and "k \<noteq> 0" "length name \<le> DUMMY_FILE_PATH_LEN"
  obtains st' where "sunneed_device_get_dummy_file p (Some (k, name)) st = (Some name, st')"
    "used_count (\<lambda>e. \<not> d_init e) (dummy_map st') = Suc (used_count (\<lambda>e. \<not> d_init e) (dummy_map st))"
proof -
  obtain i m where al: "slot_alloc (\<lambda>e. \<not> d_init e) (fill_dummy (k, p, name)) (dummy_map st) = Some (i, m)"
    using dummy_slots.alloc_succeeds [OF assms(2)] by blast
  have "m ! i = fill_dummy (k, p, name) (dummy_map st ! i)" by (rule dummy_slots.alloc_stored [OF al])
  moreover have "used_count (\<lambda>e. \<not> d_init e) m = Suc (used_count (\<lambda>e. \<not> d_init e) (dummy_map st))"
    using dummy_slots.alloc_count [OF _ al] assms(3) by simp
  ultimately show ?thesis
    using assms(1,4) al
    by (intro that [of "st\<lparr>dummy_map := m\<rparr>"])
      (simp_all add: sunneed_device_get_dummy_file_def dummy_lookup_def fill_dummy_def)
qed

lemma idle_dummy:
  assumes "job_ok nng j" "idle nng (ex_path (snd j) # ps) es st"
  obtains k dst where "os_mkstemp (lk_env (fst j)) = Some (k, mk_name j)"
    "sunneed_device_get_dummy_file (ex_path (snd j)) (Some (k, mk_name j)) (sv_dev st) = (Some (mk_name j), dst)"
    "used_count (\<lambda>e. \<not> d_init e) (dummy_map dst) = Suc (length es)"
proof -
  note J = assms(1) [unfolded job_ok_def] and I = assms(2) [unfolded idle_def]
  obtain k where k: "k \<noteq> 0" "os_mkstemp (lk_env (fst j)) = Some (k, mk_name j)" using J by blast
  have pre: "dummy_lookup (sv_dev st) (ex_path (snd j)) = None" "length (mk_name j) \<le> DUMMY_FILE_PATH_LEN"
    "used_count (\<lambda>e. \<not> d_init e) (dummy_map (sv_dev st)) < length (dummy_map (sv_dev st))"
    using I J by (simp_all add: capacities)
  show ?thesis
    by (rule get_dummy_fresh [OF pre(1,3) k(1) pre(2)]) (use k(2) I that in simp)
qed

lemma idle_ready:
  assumes "job_ok nng j" "idle nng (ex_path (snd j) # ps) es st" "mk_name j \<notin> fst ` set es"
  shows "session_ready (fst j) (ex_path (snd j)) (fst (ex_open (snd j))) (snd (ex_open (snd j))) (ex_bufs (snd j))
    (mk_name j) (job_fd j) es st"
proof -
  note J = assms(1) [unfolded job_ok_def] and I = assms(2) [unfolded idle_def]
  obtain k dst where k: "os_mkstemp (lk_env (fst j)) = Some (k, mk_name j)"
    and "sunneed_device_get_dummy_file (ex_path (snd j)) (Some (k, mk_name j)) (sv_dev st) = (Some (mk_name j), dst)"
    by (rule idle_dummy [OF assms(1,2)])
  moreover have "\<not> prefix (mk_name j) (fst e)" if "e \<in> set es" for e
  proof
    assume "prefix (mk_name j) (fst e)"
    moreover have "length (fst e) = length (mk_name j)" using that I J by simp
    ultimately have "mk_name j = fst e" by (auto simp: prefix_def)
    with that assms(3) show False by blast
  qed
  moreover have "locked_path (sv_dev st) (ex_path (snd j))"
    unfolding locked_path_concat using I ex_path_build [of "snd j"] by force
  moreover have "length build_paths < MAX_LOCKED_FILES" "0 < MAX_TENANTS"
    by (simp_all add: build_paths_def capacities)
  moreover have "os_open (lk_env (fst j)) (ex_path (snd j)) (fst (ex_open (snd j))) (snd (ex_open (snd j))) = job_fd j"
    by (simp add: job_fd_def split_beta)
  ultimately show ?thesis using I J unfolding session_ready_def by simp
qed

lemma build_paths_short: "p \<in> set build_paths \<Longrightarrow> length p \<le> DUMMY_FILE_PATH_LEN"
  by (auto simp: build_paths_def capacities)

text \<open>A job is served from an idle daemon, which is then idle for the next one.\<close>

lemma idle_step:
  assumes "job_ok nng j" "idle nng (ex_path (snd j) # ps) es st" "mk_name j \<notin> fst ` set es"
    and "ex_path (snd j) \<notin> set ps" "set ps \<subseteq> set build_paths"
  obtains st' where "run_session (fst j) (snd j) st = (Done 0, st')" "sv_calls st' = sv_calls st @ job_calls j"
    "idle nng ps (es @ [(mk_name j, job_fd j)]) st'"
proof -
  note J = assms(1) [unfolded job_ok_def] and I = assms(2) [unfolded idle_def]
  have lk: "link_ok (fst j)" "lk_nng (fst j) = nng" using J by simp_all
  obtain st' where S: "run_session (fst j) (snd j) st = (Done 0, st')"
    "sv_calls st' = sv_calls st @ SysOpen (ex_path (snd j)) (fst (ex_open (snd j))) (snd (ex_open (snd j))) (job_fd j) #
      map (SysWrite (job_fd j)) (ex_bufs (snd j))"
    "sessions (sv_proc st') = sessions (sv_proc st)" "server_ok (lk_nng (fst j)) st'"
    "open_table st' (es @ [(mk_name j, job_fd j)])" "sv_locked st' = sv_locked st"
    "sv_dev st' = snd (sunneed_device_get_dummy_file (ex_path (snd j)) (os_mkstemp (lk_env (fst j))) (sv_dev st))"
    by (rule example_session [OF lk(1) prod.collapse [symmetric] idle_ready [OF assms(1-3)]])
  obtain k dst where k: "os_mkstemp (lk_env (fst j)) = Some (k, mk_name j)"
    and get: "sunneed_device_get_dummy_file (ex_path (snd j)) (Some (k, mk_name j)) (sv_dev st) = (Some (mk_name j), dst)"
    and used: "used_count (\<lambda>e. \<not> d_init e) (dummy_map dst) = Suc (length es)"
    by (rule idle_dummy [OF assms(1,2)])
  have dst: "sv_dev st' = dst" using S(7) k get by simp
  have frame: "devices dst = devices (sv_dev st)" "length (dummy_map dst) = length (dummy_map (sv_dev st))"
    using get_dummy_devices [of "ex_path (snd j)" "Some (k, mk_name j)" "sv_dev st"]
      get_dummy_length [of "ex_path (snd j)" "Some (k, mk_name j)" "sv_dev st"] get by simp_all
  have "dummy_lookup dst p = None" if "p \<in> set ps" for p
  proof -
    have "length p \<le> DUMMY_FILE_PATH_LEN" "length (ex_path (snd j)) \<le> DUMMY_FILE_PATH_LEN"
      using that assms(5) build_paths_short ex_path_build by blast+
    moreover have "dummy_lookup (sv_dev st) (ex_path (snd j)) = None" "dummy_lookup (sv_dev st) p = None" "p \<noteq> ex_path (snd j)"
      using I that assms(4) by auto
    ultimately show ?thesis using dummy_lookup_after_miss [OF _ get, of p] by simp
  qed
  then have "idle nng ps (es @ [(mk_name j, job_fd j)]) st'"
    using S(3-6) I J used frame lk(2) unfolding idle_def dst by simp
  with S(1,2) that show ?thesis by (simp add: job_calls_def)
qed

lemma run_batch_idle:
  assumes "\<forall>j \<in> set js. job_ok nng j" "idle nng (map (\<lambda>j. ex_path (snd j)) js) es st"
    and "distinct (map (\<lambda>j. ex_path (snd j)) js)" "distinct (map fst es @ map mk_name js)"
  shows "fst (run_batch js st) = replicate (length js) (Done 0) \<and>
    sv_calls (snd (run_batch js st)) = sv_calls st @ concat (map job_calls js) \<and>
    sessions (sv_proc (snd (run_batch js st))) = {} \<and> server_ok nng (snd (run_batch js st))"
  using assms
proof (induction js arbitrary: es st)
  case Nil
  then show ?case by (simp add: idle_def)
next
  case (Cons j js)
  have new: "mk_name j \<notin> fst ` set es" "ex_path (snd j) \<notin> set (map (\<lambda>j. ex_path (snd j)) js)"
    using Cons.prems(3,4) by auto
  have sub: "set (map (\<lambda>j. ex_path (snd j)) js) \<subseteq> set build_paths" using ex_path_build by auto
  have j: "job_ok nng j" "idle nng (ex_path (snd j) # map (\<lambda>j. ex_path (snd j)) js) es st" using Cons.prems by simp_all
  obtain st' where S: "run_session (fst j) (snd j) st = (Done 0, st')" "sv_calls st' = sv_calls st @ job_calls j"
    "idle nng (map (\<lambda>j. ex_path (snd j)) js) (es @ [(mk_name j, job_fd j)]) st'"
    by (rule idle_step [OF j new sub])
  have "fst (run_batch js st') = replicate (length js) (Done 0) \<and>
    sv_calls (snd (run_batch js st')) = sv_calls st' @ concat (map job_calls js) \<and>
    sessions (sv_proc (snd (run_batch js st'))) = {} \<and> server_ok nng (snd (run_batch js st'))"
    by (rule Cons.IH [OF _ S(3)]) (use Cons.prems in auto)
  then show ?case using S(1,2) by (simp add: split_beta)
qed

text \<open>The daemon that has just been started with the modules of the repository is idle.\<close>

lemma ex_paths_bound:
  assumes "distinct (map (\<lambda>j. ex_path (snd j)) js)"
  shows "length js \<le> MAX_LOCKED_FILES"
proof -
  have "card (set (map (\<lambda>j. ex_path (snd j)) js)) \<le> card (set build_paths)"
    using ex_path_build by (intro card_mono) auto
  then have "length js \<le> card (set build_paths)" using distinct_card [OF assms] by simp
  also have "\<dots> \<le> length build_paths" by (rule card_length)
  finally show ?thesis by (simp add: build_paths_def capacities)
qed

lemma fresh_dummies:
  "length (dummy_map device_static) = MAX_LOCKED_FILES"
  "used_count (\<lambda>e. \<not> d_init e) (dummy_map device_static) = 0"
  "dummy_map dst = dummy_map device_static \<Longrightarrow> dummy_lookup dst p = None"
  by (simp_all add: device_static_def used_count_def dummy_lookup_def dummy_hit_def first_index_replicate)

lemma boot_idle:
  assumes "nng_ok nng" "startup_ok env" "me_received env = []"
    and "me_dlopen env = build_device" "me_alloc env = (\<lambda>_. True)" "me_dir env = Some build_device_dir"
    and "distinct (map (\<lambda>j. ex_path (snd j)) js)"
  shows "\<exists>d. main nng env tests [] daemon_static = Done (None, d) \<and>
    idle nng (map (\<lambda>j. ex_path (snd j)) js) [] (dm_server d) \<and> sv_calls (dm_server d) = []"
proof -
  obtain d where d: "main nng env tests [] daemon_static = Done (None, d)" "server_ok nng (dm_server d)"
    "sessions (sv_proc (dm_server d)) = {}" "open_table (dm_server d) []" "sv_calls (dm_server d) = []"
    "sv_locked (dm_server d) = lp_of (concat (map locked_by (devices (sv_dev (dm_server d)))))"
    "dummy_map (sv_dev (dm_server d)) = dummy_map device_static"
    and ld: "sunneed_load_devices (me_dlopen env) (me_alloc env) (me_dir env) (devices device_static)
      locked_file_paths_static = Done (0, devices (sv_dev (dm_server d)), sv_locked (dm_server d))"
    using main_start [OF assms(1-3), of tests] by blast
  have lp: "sv_locked (dm_server d) = lp_of build_paths" using ld build_device_paths unfolding assms(4-6) by auto
  moreover from this d(6) have "concat (map locked_by (devices (sv_dev (dm_server d)))) = build_paths"
    using lp_of_inject by metis
  ultimately have "idle nng (map (\<lambda>j. ex_path (snd j)) js) [] (dm_server d)"
    using d fresh_dummies ex_paths_bound [OF assms(7)] by (simp add: idle_def)
  with d(1,5) show ?thesis by blast
qed

end
