(* ===== verification/Sunneed_Log.thy ===== *)
theory Sunneed_Log
  imports Sunneed_Scanf
begin

text \<open>
  The log, \<^verbatim>\<open>src/src/log.h\<close>, on a model of the streams of \<^verbatim>\<open>stdio.h\<close>, with the two files that
  \<open>main\<close> of \<^verbatim>\<open>src/src/sunneed_core.c\<close> opens for it.

  A stream is the standard output or an index into the list of opened streams, each of which
  has the name of its file and its position. \<^verbatim>\<open>fopen\<close> with the mode \<^verbatim>\<open>w+\<close> empties the file, and
  fails when \<open>st_limit\<close> streams are open. A stream is what has been written to it: when the
  C library flushes its buffer is not modelled.

  The macros are not called by name in the other theories, since no state but the log depends
  on them. Shown are what a sequence of messages leaves in the log, and that the macro for the
  power log loses every message but the last and uses up a stream for each.
\<close>

section \<open>Time stamps\<close>

record tm =
  tm_year :: nat
  tm_mon :: nat
  tm_mday :: nat
  tm_hour :: nat
  tm_min :: nat
  tm_sec :: nat

definition pad2 :: "nat \<Rightarrow> cstr" where
  "pad2 n = (if n < 10 then CHR ''0'' # dec n else dec n)"

text \<open>
  \<^verbatim>\<open>strftime\<close> with the format of the log into the buffer \<^verbatim>\<open>_time_str\<close> of 21 bytes. A result that does
  not fit leaves the buffer unspecified.
\<close>

definition time_str :: "tm \<Rightarrow> cstr outcome" where
  "time_str t =
     (let s = dec (tm_year t) @ ''-'' @ pad2 (tm_mon t) @ ''-'' @ pad2 (tm_mday t) @ '' '' @
              pad2 (tm_hour t) @ '':'' @ pad2 (tm_min t) @ '':'' @ pad2 (tm_sec t)
      in if length s < 21 then Done s else Fault UninitRead)"

section \<open>Streams\<close>

datatype stream = Stdout | FileStream nat

record stdio =
  logfile :: "stream option"
  logfile_pwr :: "stream option"
  st_stdout :: cstr
  st_files :: "cstr \<Rightarrow> cstr"
  st_open :: "(cstr \<times> nat) list"
  st_limit :: nat

definition fopen_w :: "cstr \<Rightarrow> stdio \<Rightarrow> stream option \<times> stdio" where
  "fopen_w name w =
     (if st_limit w \<le> length (st_open w) then (None, w)
      else (Some (FileStream (length (st_open w))),
            w\<lparr>st_files := (st_files w)(name := []), st_open := st_open w @ [(name, 0)]\<rparr>))"

definition write_at :: "nat \<Rightarrow> cstr \<Rightarrow> cstr \<Rightarrow> cstr" where
  "write_at pos txt content =
     take pos (content @ replicate (pos - length content) (CHR 0x00)) @ txt @ drop (pos + length txt) content"

fun fputs :: "stream \<Rightarrow> cstr \<Rightarrow> stdio \<Rightarrow> stdio" where
  "fputs Stdout txt w = w\<lparr>st_stdout := st_stdout w @ txt\<rparr>"
| "fputs (FileStream h) txt w =
     (case st_open w ! h of (name, pos) \<Rightarrow>
        w\<lparr>st_files := (st_files w)(name := write_at pos txt (st_files w name)),
          st_open := (st_open w)[h := (name, pos + length txt)]\<rparr>)"

section \<open>The macros\<close>

definition LOGL_DEBUG :: cstr where
  "LOGL_DEBUG = ''D'' @ [CHR 0x1B] @ ''[38;5;240m''"

definition LOGL_INFO :: cstr where
  "LOGL_INFO = ''I''"

definition LOGL_WARN :: cstr where
  "LOGL_WARN = ''W'' @ [CHR 0x1B] @ ''[0;33m''"

definition LOGL_ERROR :: cstr where
  "LOGL_ERROR = ''E'' @ [CHR 0x1B] @ ''[0;31m''"

definition log_line :: "cstr \<Rightarrow> cstr \<Rightarrow> cstr \<Rightarrow> cstr" where
  "log_line level time msg = level @ ''['' @ time @ ''] '' @ msg @ [CHR 0x1B] @ ''[0m'' @ [CHR 0x0A]"

definition LOG :: "cstr \<Rightarrow> cstr \<Rightarrow> tm \<Rightarrow> stdio \<Rightarrow> stdio outcome" where
  "LOG level msg t w =
     obind (time_str t) (\<lambda>s.
       Done (fputs (case logfile w of None \<Rightarrow> Stdout | Some f \<Rightarrow> f) (log_line level s msg) w))"

definition LOG_PWR :: "cstr \<Rightarrow> cstr \<Rightarrow> tm \<Rightarrow> stdio \<Rightarrow> stdio outcome" where
  "LOG_PWR level msg t w =
     (let (file, w') = (if logfile_pwr w \<noteq> None then fopen_w ''sunneed_pwr_log.txt'' w else (logfile_pwr w, w))
      in obind (time_str t) (\<lambda>s.
           case file of None \<Rightarrow> Fault NullDeref | Some f \<Rightarrow> Done (fputs f (log_line level s msg) w')))"

text \<open>The macros that the sources call.\<close>

definition LOG_D :: "cstr \<Rightarrow> tm \<Rightarrow> stdio \<Rightarrow> stdio outcome" where
  "LOG_D = LOG LOGL_DEBUG"

definition LOG_I :: "cstr \<Rightarrow> tm \<Rightarrow> stdio \<Rightarrow> stdio outcome" where
  "LOG_I = LOG LOGL_INFO"

definition LOG_W :: "cstr \<Rightarrow> tm \<Rightarrow> stdio \<Rightarrow> stdio outcome" where
  "LOG_W = LOG LOGL_WARN"

definition LOG_E :: "cstr \<Rightarrow> tm \<Rightarrow> stdio \<Rightarrow> stdio outcome" where
  "LOG_E = LOG LOGL_ERROR"

definition LOG_P :: "cstr \<Rightarrow> tm \<Rightarrow> stdio \<Rightarrow> stdio outcome" where
  "LOG_P = LOG_PWR LOGL_INFO"

text \<open>The two places where \<open>main\<close> assigns the streams.\<close>

definition open_pwr_log :: "stdio \<Rightarrow> stdio" where
  "open_pwr_log w = (case fopen_w ''sunneed_pwr_log.txt'' w of (f, w') \<Rightarrow> w'\<lparr>logfile_pwr := f\<rparr>)"

definition open_test_log :: "stdio \<Rightarrow> stdio" where
  "open_test_log w = (case fopen_w ''sunneed_log.txt'' w of (f, w') \<Rightarrow> w'\<lparr>logfile := f\<rparr>)"

primrec log_all :: "(cstr \<Rightarrow> cstr \<Rightarrow> tm \<Rightarrow> stdio \<Rightarrow> stdio outcome) \<Rightarrow> (cstr \<times> cstr \<times> tm) list \<Rightarrow> stdio \<Rightarrow> stdio outcome" where
  "log_all mac [] w = Done w"
| "log_all mac (m # ms) w = obind (mac (fst m) (fst (snd m)) (snd (snd m)) w) (log_all mac ms)"

section \<open>Lemmas\<close>

lemma length_dec_le: "n < 10 ^ Suc k \<Longrightarrow> length (dec n) \<le> Suc k"
proof (induction k arbitrary: n)
  case 0
  then show ?case by (subst dec.simps) simp
next
  case (Suc k)
  then have "n div 10 < 10 ^ Suc k" by (simp add: less_mult_imp_div_less mult.commute)
  from Suc.IH [OF this] show ?case by (subst dec.simps) simp
qed

lemma length_pad2: "n < 100 \<Longrightarrow> length (pad2 n) = 2"
proof -
  assume n: "n < 100"
  show ?thesis
  proof (cases "n < 10")
    case True
    then show ?thesis by (simp add: pad2_def) (simp add: dec.simps)
  next
    case False
    with n show ?thesis by (simp add: pad2_def dec.simps [of n] dec.simps [of "n div 10"])
  qed
qed

definition date_ok :: "tm \<Rightarrow> bool" where
  "date_ok t \<longleftrightarrow> tm_year t < 100000 \<and> tm_mon t < 100 \<and> tm_mday t < 100 \<and> tm_hour t < 100 \<and> tm_min t < 100 \<and> tm_sec t < 100"

lemma time_str_Done: "date_ok t \<Longrightarrow> \<exists>s. time_str t = Done s"
  using length_dec_le [of "tm_year t" 4] by (simp add: time_str_def date_ok_def Let_def length_pad2)

text \<open>The line of a message.\<close>

definition line_of :: "cstr \<times> cstr \<times> tm \<Rightarrow> cstr" where
  "line_of m = (case time_str (snd (snd m)) of Done s \<Rightarrow> log_line (fst m) s (fst (snd m)) | _ \<Rightarrow> [])"

lemma write_at_end: "write_at (length c) txt c = c @ txt"
  by (simp add: write_at_def)

lemma log_all_append: "log_all mac (ms @ ms') w = obind (log_all mac ms w) (log_all mac ms')"
  by (induction ms arbitrary: w) (auto simp: obind_assoc intro: obind_cong)

text \<open>A stream at the end of its file, through which the log goes.\<close>

definition logs_to :: "nat \<Rightarrow> cstr \<Rightarrow> cstr \<Rightarrow> stdio \<Rightarrow> bool" where
  "logs_to h name content w \<longleftrightarrow> logfile w = Some (FileStream h) \<and> h < length (st_open w) \<and>
     st_open w ! h = (name, length content) \<and> st_files w name = content"

lemma LOG_appends:
  assumes "logs_to h name content w" "date_ok (snd (snd m))"
  shows "\<exists>w'. LOG (fst m) (fst (snd m)) (snd (snd m)) w = Done w' \<and> logs_to h name (content @ line_of m) w'"
proof -
  obtain s where "time_str (snd (snd m)) = Done s" using time_str_Done [OF assms(2)] by blast
  then show ?thesis using assms(1) by (simp add: LOG_def logs_to_def line_of_def write_at_end)
qed

section \<open>Properties\<close>

text \<open>
  C37. The log file. After \<open>main\<close> has opened it (for a runtime test), any sequence of messages
  with dates up to the year 99999 is written to it line by line in order, each with its level
  and time, and nothing else is in it; without a log file the lines go to the standard output.
\<close>

theorem log_file_lines:
  assumes "\<forall>m \<in> set ms. date_ok (snd (snd m))" "length (st_open w) < st_limit w"
  shows "(\<exists>w'. log_all LOG ms (open_test_log w) = Done w' \<and>
      st_files w' ''sunneed_log.txt'' = concat (map line_of ms)) \<and>
    (logfile w = None \<longrightarrow> (\<exists>w'. log_all LOG ms w = Done w' \<and> st_stdout w' = st_stdout w @ concat (map line_of ms) \<and>
      st_files w' = st_files w))"
proof
  have "\<exists>w'. log_all LOG ms v = Done w' \<and> st_files w' ''sunneed_log.txt'' = c @ concat (map line_of ms)"
    if "logs_to h ''sunneed_log.txt'' c v" for h c v
    using assms(1) that
  proof (induction ms arbitrary: c v)
    case Nil
    then show ?case by (simp add: logs_to_def)
  next
    case (Cons m ms)
    then obtain v' where "LOG (fst m) (fst (snd m)) (snd (snd m)) v = Done v'"
      "logs_to h ''sunneed_log.txt'' (c @ line_of m) v'" using LOG_appends [OF Cons.prems(2), of m] by auto
    with Cons.IH [of "c @ line_of m" v'] Cons.prems(1) show ?case by simp
  qed
  moreover have "logs_to (length (st_open w)) ''sunneed_log.txt'' [] (open_test_log w)"
    using assms(2) by (simp add: open_test_log_def fopen_w_def logs_to_def)
  ultimately show "\<exists>w'. log_all LOG ms (open_test_log w) = Done w' \<and>
      st_files w' ''sunneed_log.txt'' = concat (map line_of ms)"
    using append_Nil by metis
next
  show "logfile w = None \<longrightarrow> (\<exists>w'. log_all LOG ms w = Done w' \<and> st_stdout w' = st_stdout w @ concat (map line_of ms) \<and>
      st_files w' = st_files w)"
    using assms(1)
  proof (induction ms arbitrary: w)
    case Nil
    then show ?case by simp
  next
    case (Cons m ms)
    obtain s where s: "time_str (snd (snd m)) = Done s" using time_str_Done Cons.prems by auto
    show ?case
      using Cons.IH [of "w\<lparr>st_stdout := st_stdout w @ log_line (fst m) s (fst (snd m))\<rparr>"] Cons.prems s
      by (auto simp: LOG_def line_of_def)
  qed
qed

definition demo_stdio :: stdio where
  "demo_stdio = \<lparr>logfile = None, logfile_pwr = None, st_stdout = [], st_files = (\<lambda>_. []), st_open = [], st_limit = 1021\<rparr>"

definition demo_tm :: tm where
  "demo_tm = \<lparr>tm_year = 2020, tm_mon = 7, tm_mday = 1, tm_hour = 9, tm_min = 30, tm_sec = 0\<rparr>"

theorem log_file_lines_witness:
  "\<exists>w'. log_all LOG [(LOGL_INFO, ''a'', demo_tm), (LOGL_ERROR, ''b'', demo_tm)] (open_test_log demo_stdio) = Done w' \<and>
     st_files w' ''sunneed_log.txt'' = line_of (LOGL_INFO, ''a'', demo_tm) @ line_of (LOGL_ERROR, ''b'', demo_tm)"
  using log_file_lines [of "[(LOGL_INFO, ''a'', demo_tm), (LOGL_ERROR, ''b'', demo_tm)]" demo_stdio]
  by (simp add: demo_stdio_def date_ok_def demo_tm_def)

lemma LOG_PWR_once:
  assumes "date_ok (snd (snd m))" "logfile_pwr w \<noteq> None" "length (st_open w) < st_limit w"
  shows "\<exists>w'. LOG_PWR (fst m) (fst (snd m)) (snd (snd m)) w = Done w' \<and> logfile_pwr w' = logfile_pwr w \<and>
    st_limit w' = st_limit w \<and> length (st_open w') = Suc (length (st_open w)) \<and>
    st_files w' ''sunneed_pwr_log.txt'' = line_of m"
proof -
  obtain s where "time_str (snd (snd m)) = Done s" using time_str_Done [OF assms(1)] by blast
  then show ?thesis using assms(2,3) write_at_end [of "[]"] by (simp add: LOG_PWR_def fopen_w_def line_of_def)
qed

lemma LOG_PWR_many:
  assumes "\<forall>m \<in> set ms. date_ok (snd (snd m))" "logfile_pwr w \<noteq> None" "length (st_open w) + length ms \<le> st_limit w"
  shows "\<exists>w'. log_all LOG_PWR ms w = Done w' \<and> logfile_pwr w' \<noteq> None \<and> st_limit w' = st_limit w \<and>
    length (st_open w') = length (st_open w) + length ms \<and>
    (ms \<noteq> [] \<longrightarrow> st_files w' ''sunneed_pwr_log.txt'' = line_of (last ms))"
  using assms
proof (induction ms rule: rev_induct)
  case Nil
  then show ?case by simp
next
  case (snoc m ms)
  then obtain w1 where w1: "log_all LOG_PWR ms w = Done w1" "logfile_pwr w1 \<noteq> None" "st_limit w1 = st_limit w"
    "length (st_open w1) = length (st_open w) + length ms" by auto
  with LOG_PWR_once [of m w1] snoc.prems obtain w2 where
    "LOG_PWR (fst m) (fst (snd m)) (snd (snd m)) w1 = Done w2" "logfile_pwr w2 = logfile_pwr w1"
    "st_limit w2 = st_limit w1" "length (st_open w2) = Suc (length (st_open w1))"
    "st_files w2 ''sunneed_pwr_log.txt'' = line_of m" by auto
  with w1 show ?case by (simp add: log_all_append)
qed

text \<open>
  C38. The power log. The test of the macro is inverted: it opens the file again for each
  message, which empties it, and never closes it, and without an open power log it writes to
  the stream NULL. So after \<open>n\<close> messages the file holds only the last one and \<open>n\<close> more streams
  are open, and the message after the last free stream is written to NULL.
\<close>

theorem power_log_keeps_last:
  assumes "\<forall>m \<in> set (m # ms). date_ok (snd (snd m))" "logfile_pwr w \<noteq> None"
    and "length (st_open w) + length ms = st_limit w"
  shows "(\<exists>w'. log_all LOG_PWR ms w = Done w' \<and> length (st_open w') = length (st_open w) + length ms \<and>
      (ms \<noteq> [] \<longrightarrow> st_files w' ''sunneed_pwr_log.txt'' = line_of (last ms))) \<and>
    log_all LOG_PWR (ms @ [m]) w = Fault NullDeref \<and>
    log_all LOG_PWR [m] (w\<lparr>logfile_pwr := None\<rparr>) = Fault NullDeref"
proof -
  obtain s where s: "time_str (snd (snd m)) = Done s" using time_str_Done assms(1) by auto
  obtain w' where w': "log_all LOG_PWR ms w = Done w'" "logfile_pwr w' \<noteq> None" "st_limit w' = st_limit w"
    "length (st_open w') = length (st_open w) + length ms"
    "ms \<noteq> [] \<longrightarrow> st_files w' ''sunneed_pwr_log.txt'' = line_of (last ms)"
    using LOG_PWR_many [of ms w] assms by auto
  have "LOG_PWR (fst m) (fst (snd m)) (snd (snd m)) w' = Fault NullDeref"
    using s w' assms(3) by (simp add: LOG_PWR_def fopen_w_def)
  with w' show ?thesis using s by (simp add: log_all_append) (simp add: LOG_PWR_def)
qed

theorem power_log_keeps_last_witness:
  "log_all LOG_PWR (replicate 1021 (LOGL_INFO, ''x'', demo_tm)) (open_pwr_log demo_stdio) = Fault NullDeref"
proof -
  let ?m = "(LOGL_INFO, ''x'', demo_tm)"
  have "\<forall>m \<in> set (?m # replicate 1020 ?m). date_ok (snd (snd m))" by (auto simp: date_ok_def demo_tm_def)
  moreover have "logfile_pwr (open_pwr_log demo_stdio) \<noteq> None"
    "length (st_open (open_pwr_log demo_stdio)) + length (replicate 1020 ?m) = st_limit (open_pwr_log demo_stdio)"
    by (simp_all add: open_pwr_log_def fopen_w_def demo_stdio_def)
  ultimately have "log_all LOG_PWR (replicate 1020 ?m @ [?m]) (open_pwr_log demo_stdio) = Fault NullDeref"
    using power_log_keeps_last [of ?m "replicate 1020 ?m" "open_pwr_log demo_stdio"] by blast
  moreover have "replicate 1020 ?m @ [?m] = replicate 1021 ?m"
    using replicate_append_same [of 1020 ?m] by (simp add: eval_nat_numeral)
  ultimately show ?thesis by simp
qed

end
