(* ===== verification/Sunneed_Launcher.thy ===== *)
theory Sunneed_Launcher
  imports Sunneed_Prelude
begin

text \<open>
  The launcher of the camera driver, \<^verbatim>\<open>src/run_PyDriver.c\<close>, which the camera thread of the daemon
  executes: it embeds a Python interpreter and calls the function \<^verbatim>\<open>read_pipe\<close> of the module
  \<^verbatim>\<open>picam_driver\<close>.

  The interpreter is outside the sources and is the parameter \<open>python\<close>: which modules can be
  imported, which attributes they have (\<open>None\<close> is NULL), what is callable, how the call with
  the argument pointers NULL ends, and whether an exception is pending after it. The result
  is the value that \<open>main\<close> returns or an abort; a call that never returns is \<open>Blocked\<close>.
\<close>

section \<open>The interpreter\<close>

datatype call_end = CallReturns | CallCrashes | CallRuns

record ('m, 'f) python =
  PyImport_Import :: "cstr \<Rightarrow> 'm option"
  PyObject_GetAttrString :: "'m \<Rightarrow> cstr \<Rightarrow> 'f option"
  PyCallable_Check :: "'f option \<Rightarrow> bool"
  PyObject_Call :: "'f option \<Rightarrow> call_end"
  PyErr_Occurred :: bool

text \<open>The macros for reference counts: \<^verbatim>\<open>Py_DECREF\<close> dereferences its argument, \<^verbatim>\<open>Py_XDECREF\<close> tests it.\<close>

definition Py_DECREF :: "'o option \<Rightarrow> unit outcome" where
  "Py_DECREF obj = (case obj of None \<Rightarrow> Fault NullDeref | Some _ \<Rightarrow> Done ())"

definition Py_XDECREF :: "'o option \<Rightarrow> unit outcome" where
  "Py_XDECREF obj = (case obj of None \<Rightarrow> Done () | Some _ \<Rightarrow> Py_DECREF obj)"

section \<open>The launcher\<close>

datatype launch_end = Returned int | Aborted

definition run_PyDriver :: "('m, 'f) python \<Rightarrow> launch_end outcome" where
  "run_PyDriver py =
     (case PyImport_Import py ''picam_driver'' of
        None \<Rightarrow> Done Aborted
      | Some module_obj \<Rightarrow>
          let func = PyObject_GetAttrString py module_obj ''read_pipe''
          in if \<not> PyCallable_Check py func then Done Aborted
             else let py_args = (None :: unit option); py_kwargs = (None :: unit option)
                  in (case PyObject_Call py func of
                        CallRuns \<Rightarrow> Blocked
                      | CallCrashes \<Rightarrow> Fault NullDeref
                      | CallReturns \<Rightarrow>
                          obind (Py_DECREF py_args) (\<lambda>_.
                            obind (Py_XDECREF py_kwargs) (\<lambda>_.
                              if PyErr_Occurred py then Done Aborted else Done (Returned 0)))))"

text \<open>
  The launcher never returns. If the module cannot be imported or has no callable
  \<^verbatim>\<open>read_pipe\<close> it aborts; if the call never comes back, neither does the launcher; and when the
  call does come back, with or without an exception, the launcher dereferences NULL, because
  it releases an argument tuple that it never made.
\<close>

lemma launcher_never_returns:
  "run_PyDriver py \<in> {Done Aborted, Blocked, Fault NullDeref} \<and>
   (run_PyDriver py = Done Aborted \<longleftrightarrow>
      (\<nexists>m. PyImport_Import py ''picam_driver'' = Some m \<and>
           PyCallable_Check py (PyObject_GetAttrString py m ''read_pipe''))) \<and>
   (run_PyDriver py = Blocked \<longleftrightarrow>
      (\<exists>m. PyImport_Import py ''picam_driver'' = Some m \<and>
           PyCallable_Check py (PyObject_GetAttrString py m ''read_pipe'') \<and>
           PyObject_Call py (PyObject_GetAttrString py m ''read_pipe'') = CallRuns))"
  by (auto simp: run_PyDriver_def Py_DECREF_def Let_def split: option.split call_end.split)

end
