(* ===== verification/Spec2Isabelle.thy ===== *)
theory Spec2Isabelle
  imports Sunneed_System Sunneed_Session Sunneed_Log Sunneed_Launcher
begin

text \<open>
  A verification of \<^verbatim>\<open>sunneed\<close>, a daemon that shares the devices and the power of a
  solar-powered board among several client programs (\<^emph>\<open>tenants\<close>).

  \<^bold>\<open>The program.\<close> The daemon (\<^verbatim>\<open>src/src/sunneed_core.c\<close>) loads device modules, which name files
  to be \<^emph>\<open>locked\<close> (\<^verbatim>\<open>sunneed_loader.c\<close>, \<^verbatim>\<open>device/*.c\<close>), starts four worker threads, and then
  serves requests over \<^verbatim>\<open>nng\<close> (\<^verbatim>\<open>sunneed_listener.c\<close>). A client program runs with an overlay
  (\<^verbatim>\<open>overlay/sunneed_overlay.c\<close>) that replaces \<^verbatim>\<open>open\<close> and \<^verbatim>\<open>write\<close>: through the client library
  (\<^verbatim>\<open>client/sunneed_client.c\<close>) it registers as a tenant (\<^verbatim>\<open>sunneed_proc.c\<close>), is told the locked
  paths, asks the daemon to open a locked file, gets the name of a dummy file
  (\<^verbatim>\<open>sunneed_device.c\<close>) instead, and sends what it writes to the dummy to the daemon, which
  writes it to the real file. One worker thread reads the CPU time of the tenants from procfs
  and removes tenants whose process is gone (\<^verbatim>\<open>sunneed_proc.c\<close>), one divides the power among
  the tenants once per quantum (\<^verbatim>\<open>sunneed_power.c\<close>), and two start the drivers of the stepper
  motor and of the camera.

  \<^bold>\<open>The theories\<close>, in the order of their imports:

  \<^item> \<open>Sunneed_Prelude\<close>: outcomes of C code, the string functions, the array loops, and the
    locale \<open>slot_table\<close> of arrays whose slots are taken first-fit.
  \<^item> \<open>Sunneed_Float\<close>: IEEE 754 arithmetic on \<open>float\<close> and \<open>double\<close>, rounding to nearest even,
    with every operation rounded to its own type.
  \<^item> \<open>Sunneed_Scanf\<close>: the conversions of \<^verbatim>\<open>fscanf\<close> that the monitor uses.
  \<^item> \<open>Sunneed_Ipc\<close>: the macros of \<^verbatim>\<open>shared/sunneed_ipc.h\<close> around calls of \<open>nng\<close>, used by the
    definitions of the listener and of the client.
  \<^item> \<open>Sunneed_Proc\<close>: the tenant registry. \<open>proc_state\<close> holds the arrays \<open>tenants\<close>,
    \<open>tenant_pipes\<close> and the record \<open>cpu_usage\<close>. \<open>registry_ok\<close> is the invariant that the used
    entries of the pipe table are in bijection with the active tenants; the locale
    \<open>tenant_registry\<close> is the contract that the listener relies on, interpreted on the
    functions of \<^verbatim>\<open>sunneed_proc.c\<close>.
  \<^item> \<open>Sunneed_Monitor\<close>: the pass over procfs and the monitor thread.
  \<^item> \<open>Sunneed_Device\<close>: which device locks a path, and the table of dummy files with its
    contract \<open>path_memo\<close>.
  \<^item> \<open>Sunneed_Loader\<close>: loading of device modules, the five modules of the repository, and the
    runtime tests of the loader.
  \<^item> \<open>Sunneed_Power\<close>: the list of power events in an explicit heap, the beginning and the end
    of a quantum, and the quantum thread.
  \<^item> \<open>Sunneed_Listener\<close>: messages, the request handlers, the dispatch and the receive loop over
    \<open>server_state\<close>. \<open>session_step\<close> specifies who is registered after which request; the locale
    \<open>refining_server\<close>, interpreted on the dispatch of the listener, carries the simulation over
    any sequence of messages. \<open>open_table\<close> views the table of open files as a list.
  \<^item> \<open>Sunneed_Client\<close>: the client library and the overlay. A computation of the client is a
    \<open>talk\<close> with its peer: it carries the state of the peer along, which every request changes.
  \<^item> \<open>Sunneed_Options\<close>: the command line of the daemon, with \<^verbatim>\<open>getopt\<close> and \<^verbatim>\<open>strtol\<close>, and the
    runtime tests it can ask for.
  \<^item> \<open>Sunneed_Drivers\<close>: the two driver threads, their children as a transition system of \<^verbatim>\<open>fork\<close>,
    \<^verbatim>\<open>wait\<close> and exits, and the exit handler.
  \<^item> \<open>Sunneed_Core\<close>: \<open>main\<close> and the worker threads.
  \<^item> \<open>Sunneed_System\<close>: the running daemon as a transition system in which messages, monitor
    passes, quanta and driver threads interleave, and its invariants by the locale \<open>step_system\<close>.
    \<open>daemon_act\<close> names the activity of each step, and \<open>reachable_by\<close> keeps them as a history.
  \<^item> \<open>Sunneed_Log\<close>: the macros of \<^verbatim>\<open>log.h\<close> on the streams of \<^verbatim>\<open>stdio.h\<close>.
  \<^item> \<open>Sunneed_Launcher\<close>: the launcher \<^verbatim>\<open>run_PyDriver.c\<close> of the camera driver.
  \<^item> \<open>Sunneed_Session\<close>: client and daemon together, from the single request to batches of the
    example programs. \<open>daemon_peer\<close> makes the daemon the peer of a client (\<open>client_at\<close>), so that the
    daemon serves the requests that the model of the client sends; \<open>session_ready\<close> says when a
    session can be served, \<open>idle\<close> is the invariant of the daemon between two sessions.
  \<^item> This theory: the properties of a connected client and of whole sessions.

  \<^bold>\<open>How C is modelled.\<close> Arrays are lists of their fixed length, pointers into an array are
  indices, NULL is \<open>None\<close>; a pointer into the heap is an address of an explicit map where
  aliasing matters (the event list). C strings are character lists without the NUL. Unsigned
  integers are words and wrap; conversions to \<open>int\<close> are written out; the counter of quanta,
  which is an \<open>int\<close>, faults when it overflows. A call returns \<open>Done\<close>, ends the process
  (\<open>Exited\<close>), has undefined behaviour (\<open>Fault\<close>: a dereference of NULL, an access out of
  bounds, a read of an uninitialised object or of freed memory, a signed overflow), or waits
  for ever (\<open>Blocked\<close>). Loops over linked lists are partial functions with \<open>None\<close> for no end,
  and the lemmas show that they end on every list that the operations can build; all other
  loops are over lists and end by construction. No fuel is used. The receive loop and the
  thread loops are functions of the list of what they receive, so that they say what has
  happened after any finite number of rounds.

  Outside the sources, and therefore parameters: the library \<open>nng\<close> (two functions with the
  documented behaviour \<open>nng_ok\<close>, and the results of its calls), protobuf (a message is its
  content), the answers of \<^verbatim>\<open>open\<close>, \<^verbatim>\<open>write\<close>, \<^verbatim>\<open>mkstemp\<close>, \<^verbatim>\<open>dlopen\<close>, \<^verbatim>\<open>readdir\<close>, \<^verbatim>\<open>fork\<close> and so on, the
  contents of procfs, and the reading of the battery gauge. One parameter stands for an undefined
  read of the client: the format of the message about a locked path (\<^verbatim>\<open>sunneed_client.c\<close>, line 87)
  is a pointer to the byte in front of a string literal. \<open>c_before_literal\<close> is \<open>None\<close> where this
  faults, and otherwise the byte that is found there. The properties of whole sessions assume
  that the message does no harm (\<open>print_ok\<close>), and \<open>load_message_undefined\<close> says what happens
  when it cannot be read.

  \<^bold>\<open>What is shown.\<close> End to end: client and daemon agree on what is locked when a program has been loaded, and what a client
  writes to a locked file reaches the real file byte by byte, under the conditions that the
  code needs for it; a whole session of each of the example programs, from the registration to
  the exit, leaves the registry of the daemon as it was; and from the start of the daemon with
  the modules of the repository, the example programs run one after the other all end with the
  status 0 and have exactly their calls made on the real files. For the daemon: the listener
  refines the session specification and answers every message with the response of its handler,
  every reachable state conforms to the C declarations, a
  consistent registry is kept by every interleaving in which no client is lost, every child can
  be waited for and is reached by the signals at the exit, which are determined exactly, the tables of
  dummies and open files behave as maps, loading yields exactly the list that clients are
  told, the event list never leaks or dangles, and equal shares come out of a quantum exactly,
  rounding included. Some of the properties state where the code does not do what it should,
  with the exact condition: the removal of lost tenants, the identifiers that are never
  initialised, shares that turn into NaN, an event whose link is kept, exhausted tables, calls of
  the overlay that end the client, driver threads that wait for each other's child, an exit handler that signals the
  process group, and a power log that keeps one message.

  \<^bold>\<open>What is not modelled.\<close> Failure of the allocations whose result the code does not test.
  Data races inside one operation: the threads share the tenants without locks, and the
  transition system interleaves whole operations. The messages that the operations log: the
  macros are modelled by themselves, and no state but the log depends on them. The programs in
  \<^verbatim>\<open>test\<close>, which test the macros of \<^verbatim>\<open>sunneed_ipc.h\<close> with a unit test library that is not part of
  the repository. The drivers, which are not part of the repository either. The messages of
  \<^verbatim>\<open>device.proto\<close>, which no code sends or reads.
\<close>

section \<open>Properties of a connected client\<close>

text \<open>
  C5. Client and daemon agree on what is locked when a program has been loaded. A program that
  starts under the overlay while fewer than four clients are registered initialises with the
  list of the daemon, provided that the messages it prints about the paths do no harm (the
  format of each is a pointer to the byte in front of a string literal, which is undefined). In
  the state after this initialisation the test of the client for a locked path gives the same
  answer as the search of the daemon for a locking device, for every path. An open that
  succeeds afterwards changes the table of the client.
\<close>

theorem client_agrees_with_daemon:
  assumes "server_ok nng st" "live_pipe nng pipe" "peer_pid env = Some pid_int" "calls_ok env"
    and "connected cenv nng env pipe" "print_ok cenv"
    and "sv_locked st = lp_of (concat (map locked_by (devices (sv_dev st))))"
    and "length (concat (map locked_by (devices (sv_dev st)))) < MAX_LOCKED_FILES"
    and "card (snd ` sessions (sv_proc st)) < MAX_TENANTS"
  shows "\<exists>cl st'. on_load cenv locked_paths_static st = (Done cl, st') \<and>
    (\<forall>p. 0 \<le> sunneed_client_check_locked_file p cl \<longleftrightarrow>
         (\<exists>i. sunneed_device_file_locker p (sv_dev st') = Done (Some i)))"
proof -
  let ?ps = "concat (map locked_by (devices (sv_dev st)))"
  obtain st' where init: "on_load cenv locked_paths_static st = (Done (cl_of ?ps), st')"
    and reg: "handle_request nng env pipe (Some (RegisterClient ''TODO'')) st =
      Done (Some \<lparr>resp_status = 0, resp_body = RespRegisterClient ?ps\<rparr>, st')"
    by (rule load_against_daemon [OF assms])
  have dev: "sv_dev st' = sv_dev st"
    using reg by (auto simp: handle_request_def serve_register_client_def split: option.splits)
  have "0 \<le> sunneed_client_check_locked_file p (cl_of ?ps) \<longleftrightarrow>
      (\<exists>i. sunneed_device_file_locker p (sv_dev st') = Done (Some i))" for p
  proof -
    have "0 \<le> sunneed_client_check_locked_file p (cl_of ?ps) \<longleftrightarrow> locked_path (sv_dev st) p"
      unfolding check_nonneg_iff locked_path_concat ..
    also have "\<dots> \<longleftrightarrow> first_index (\<lambda>dev. \<exists>q \<in> set (locked_by dev). prefix p q) (devices (sv_dev st)) \<noteq> None"
      by (simp add: locked_path_def first_index_None_iff del: not_None_eq)
    finally show ?thesis using file_locker_Done [OF server_okD(3) [OF assms(1)], of p] dev by simp
  qed
  with init show ?thesis by blast
qed

theorem client_agrees_with_daemon_witness:
  "\<exists>cl st'. on_load (client_of demo_nng demo_env 7) locked_paths_static demo_server = (Done cl, st') \<and>
     (0 \<le> sunneed_client_check_locked_file ''/tmp/cam'' cl \<longleftrightarrow>
      (\<exists>i. sunneed_device_file_locker ''/tmp/cam'' (sv_dev st') = Done (Some i)))"
proof -
  have "concat (map locked_by (devices (sv_dev demo_server))) = [''/tmp/camera'']"
    using demo_device_paths by (simp add: demo_server_def)
  then show ?thesis
    using client_agrees_with_daemon [OF demo_server_ok(1) demo_nng_ok(2) _ demo_calls_ok client_of_connected, of 100]
      demo_no_sessions
    by (auto simp: demo_env_def demo_server_def capacities)
qed

text \<open>
  C1. The purpose of the system, end to end. A program under the overlay opens a locked file
  and writes to the descriptor it gets. If the daemon has a free slot, can open the file and
  has not handed out the dummy before, the write of the daemon succeeds, and the buffer has no
  byte other than zero after a zero byte, then the requests that the program has sent made the
  daemon open the real file with the flags of the program and write exactly the bytes of the
  program to it, and nothing else.
\<close>

theorem overlay_write_reaches_device:
  assumes "server_ok nng st" "tenant_of_pipe nng (int_of_u32 pipe) (sv_proc st) = Some t"
    and "calls_ok env" "calls_ok env'" "open_table st es" "length es < MAX_LOCKED_FILES"
    and "first_index (prefix p) ps = Some i" "length ps \<le> MAX_LOCKED_FILES"
    and "locked_path (sv_dev st) p" "os_open env p flags mode = fd" "fd \<noteq> -1"
    and "sunneed_device_get_dummy_file p (os_mkstemp env) (sv_dev st) = (Some d, dst)"
    and "\<forall>e \<in> set es. \<not> prefix d (fst e)" "connected cenv nng env pipe" "connected cenv' nng env' pipe"
    and "sys_open cenv (Some d) flags mode = cfd" "0 < cfd"
    and "\<forall>b \<in> set (dropWhile (\<lambda>b. b \<noteq> 0) buf). b = 0" "0 \<le> fst (os_write env' fd buf)"
  shows "\<exists>cl st1 r st2. overlay_open cenv p flags mode (cl_of ps) st = (Done (cfd, cl), st1) \<and>
    serve_message nng env pipe (Some (OpenFile p flags mode)) st =
      Done (Reply \<lparr>resp_status = 0, resp_body = RespOpenFile d\<rparr>, st1) \<and>
    overlay_write cenv' cfd buf cl st1 = (Done 0, st2) \<and>
    serve_message nng env' pipe (Some (Write d buf)) st1 = Done (Reply r, st2) \<and>
    sv_calls st2 = sv_calls st @ [SysOpen p flags mode fd, SysWrite fd buf]"
proof -
  obtain st1 st2 n where S: "serve_message nng env pipe (Some (OpenFile p flags mode)) st =
      Done (Reply \<lparr>resp_status = 0, resp_body = RespOpenFile d\<rparr>, st1)"
    "daemon_peer nng env pipe (OpenFile p flags mode) st = (Answered \<lparr>resp_status = 0, resp_body = RespOpenFile d\<rparr>, st1)"
    "serve_message nng env' pipe (Some (Write d buf)) st1 =
      Done (Reply \<lparr>resp_status = 0, resp_body = RespCallWrite 0 n\<rparr>, st2)"
    "daemon_peer nng env' pipe (Write d buf) st1 = (Answered \<lparr>resp_status = 0, resp_body = RespCallWrite 0 n\<rparr>, st2)"
    "sv_calls st2 = sv_calls st @ [SysOpen p flags mode fd, SysWrite fd buf]"
    by (rule serve_open_then_write [OF assms(1-6,9-13,19)])
  let ?cl = "(cl_of ps)[i := \<lparr>cl_path = Some d, cl_fd = cfd\<rparr>]"
  have i: "i < length ps" using first_index_SomeD [OF assms(7)] by blast
  have safe: "zero_safe buf" using assms(18) unfolding zero_safe_def .
  have "overlay_open cenv p flags mode (cl_of ps) st = (Done (cfd, ?cl), st1)"
    using assms(7,8,14,16,17) S(2) by (intro overlay_open_cl_of) (simp_all add: connected_def)
  moreover have "overlay_write cenv' cfd buf ?cl st1 = (Done 0, st2)"
    using assms(15) S(4) by (intro overlay_write_cl_of [OF _ i assms(8,17) safe]) (simp_all add: connected_def)
  ultimately show ?thesis using S(1,3,5) by blast
qed

theorem overlay_write_reaches_device_witness:
  "\<exists>cl st1 st2. overlay_open (client_of demo_nng demo_env 7) ''/tmp/camera'' 1 0 (cl_of [''/tmp/camera'']) demo_registered =
       (Done (3, cl), st1) \<and>
     overlay_write (client_of demo_nng demo_env 7) 3 [65, 66] cl st1 = (Done 0, st2) \<and>
     sv_calls st2 = [SysOpen ''/tmp/camera'' 1 0 9, SysWrite 9 [65, 66]]"
proof -
  note D = demo_registered_ok
  obtain dst where dst: "sunneed_device_get_dummy_file ''/tmp/camera'' (os_mkstemp demo_env) (sv_dev demo_registered)
    = (Some ''locked_aaaaaa'', dst)" by (rule demo_dummy)
  have pre: "length [] < MAX_LOCKED_FILES" "length [''/tmp/camera''] \<le> MAX_LOCKED_FILES"
    "first_index (prefix ''/tmp/camera'') [''/tmp/camera''] = Some 0"
    "os_open demo_env ''/tmp/camera'' 1 0 = 9" "(9 :: int) \<noteq> -1" "\<forall>e \<in> set []. \<not> prefix ''locked_aaaaaa'' (fst e)"
    "sys_open (client_of demo_nng demo_env 7) (Some ''locked_aaaaaa'') 1 0 = 3" "(0 :: int) < 3"
    "\<forall>b \<in> set (dropWhile (\<lambda>b. b \<noteq> 0) [65, 66 :: byte]). b = 0" "0 \<le> fst (os_write demo_env 9 [65, 66])"
    by (simp_all add: demo_env_def client_of_def capacities)
  have "sv_calls demo_registered = []" by (simp add: demo_registered_def demo_server_def)
  with overlay_write_reaches_device [OF D(1,3) demo_calls_ok demo_calls_ok D(2) pre(1,3,2) demo_locked pre(4,5)
      dst pre(6) client_of_connected(1) client_of_connected(1) pre(7,8,9,10)] show ?thesis
    by (metis append_Nil)
qed

text \<open>
  C25. The fifth program under the overlay crashes while it is being loaded. With four clients
  registered the daemon refuses the registration, and the initialisation of the client
  dereferences NULL.
\<close>

theorem fifth_client_crashes:
  assumes "server_ok nng st" "live_pipe nng pipe" "peer_pid env = Some pid_int" "calls_ok env"
    and "connected cenv nng env pipe" "sv_locked st = lp_of ps" "length ps < MAX_LOCKED_FILES"
    and "card (snd ` sessions (sv_proc st)) = MAX_TENANTS"
  shows "on_load cenv locked_paths_static st = (Fault NullDeref, st)"
proof -
  have "handle_request nng env pipe (Some (RegisterClient ''TODO'')) st =
      Done (Some \<lparr>resp_status = 1, resp_body = RespRegisterClient []\<rparr>, st)"
    using handle_register [OF assms(1-3,6,7), of "''TODO''"] assms(8) by simp
  then have "c_peer cenv (RegisterClient ''TODO'') st =
      (Answered \<lparr>resp_status = 1, resp_body = RespRegisterClient []\<rparr>, st)"
    using assms(4,5) by (simp add: connected_def serve_message_reply(2))
  from client_init_refused_faults [OF _ this, of locked_paths_static] assms(5) show ?thesis
    by (simp add: on_load_def connected_def tbind_def)
qed

definition four_clients :: server_state where
  "four_clients = demo_server\<lparr>sv_proc := attach 3 3 10 103 (attach 2 2 9 102 (two_tenants proc_static))\<rparr>"

lemma four_clients_ok: "server_ok demo_nng four_clients" "card (snd ` sessions (sv_proc four_clients)) = MAX_TENANTS"
proof -
  note T = two_tenants_shape [OF proc_static_ok fresh_proc_inactive(2)]
  have P: "pipes_ok demo_nng proc_static" using static_pipes_ok demo_nng_ok(1) .
  have live: "live_pipe demo_nng 9" "live_pipe demo_nng 10"
    by (simp_all add: live_pipe_def demo_nng_def int_of_u32_def)
  let ?two = "two_tenants proc_static"
  let ?three = "attach 2 2 9 102 ?two"
  let ?four = "attach 3 3 10 103 ?three"
  have small: "(2 :: nat) < SUNNEED_MAX_IPC_CLIENTS" "(3 :: nat) < SUNNEED_MAX_IPC_CLIENTS"
    "(0 :: nat) < SUNNEED_MAX_IPC_CLIENTS" "(1 :: nat) < SUNNEED_MAX_IPC_CLIENTS"
    "(2 :: nat) < MAX_TENANTS" "(3 :: nat) < MAX_TENANTS"
    by (simp_all add: capacities)
  have free: "tp_tenant (tenant_pipes ?two ! 2) = None" "tp_tenant (tenant_pipes ?two ! 3) = None"
    "\<not> is_active (tenants ?two ! 2)" "\<not> is_active (tenants ?two ! 3)"
    by (simp_all add: two_tenants_def attach_def proc_static_def zero_tenant_def capacities)
  have one: "registry_ok (attach 0 0 7 100 proc_static)" "pipes_ok demo_nng (attach 0 0 7 100 proc_static)"
    using server_okD(1,2) [OF demo_registered_ok(1)] by (simp_all add: demo_registered_def)
  have p2: "pipes_ok demo_nng ?two"
    unfolding two_tenants_def using one demo_nng_ok(3) small(4) by (rule attach_pipes_ok)
  have r3: "registry_ok ?three" using T(1) small(1) free(1) small(5) free(3) by (rule attach_registry_ok)
  have p3: "pipes_ok demo_nng ?three" using T(1) p2 live(1) small(1) by (rule attach_pipes_ok)
  have len: "length (tenant_pipes ?two) = SUNNEED_MAX_IPC_CLIENTS" "length (tenants ?two) = MAX_TENANTS"
    using registry_okD(1,2) [OF T(1)] by simp_all
  have free3: "tp_tenant (tenant_pipes ?three ! 3) = None" "\<not> is_active (tenants ?three ! 3)"
    using free small len by (simp_all add: attach_slot attach_active)
  have r4: "registry_ok ?four" using r3 small(2) free3(1) small(6) free3(2) by (rule attach_registry_ok)
  have p4: "pipes_ok demo_nng ?four" using r3 p3 live(2) small(2) by (rule attach_pipes_ok)
  show "server_ok demo_nng four_clients"
    using demo_server_ok(1) r4 p4 by (simp add: server_ok_def four_clients_def)
  have "active_set ?four = {0, 1, 2, 3}"
  proof -
    have "active_set ?two = {0, 1}"
      using active_set_attach [of 1 "attach 0 0 7 100 proc_static" 1 8 101] active_set_attach [of 0 proc_static 0 7 100]
        fresh_proc_inactive(2)
      by (auto simp: two_tenants_def attach_def proc_static_def capacities)
    then show ?thesis
      using active_set_attach [of 2 ?two 2 9 102] active_set_attach [of 3 ?three 3 10 103] len small
        registry_okD(1) [OF r3] by auto
  qed
  then show "card (snd ` sessions (sv_proc four_clients)) = MAX_TENANTS"
    using tenants_of_sessions [OF r4] by (simp add: four_clients_def capacities)
qed

theorem fifth_client_crashes_witness:
  "on_load (client_of demo_nng demo_env 11) locked_paths_static four_clients = (Fault NullDeref, four_clients)"
proof -
  have "live_pipe demo_nng 11" by (simp add: live_pipe_def demo_nng_def int_of_u32_def)
  moreover have "sv_locked four_clients = lp_of [''/tmp/camera'']" "peer_pid demo_env = Some 100"
    "length [''/tmp/camera''] < MAX_LOCKED_FILES"
    by (simp_all add: four_clients_def demo_server_def demo_env_def capacities)
  ultimately show ?thesis
    using four_clients_ok demo_calls_ok client_of_connected(1)
    by (intro fifth_client_crashes [of demo_nng four_clients 11 demo_env 100 _ "[''/tmp/camera'']"])
qed



section \<open>Complete sessions\<close>














end
